theory Spec2Isabelle
  imports Main "HOL-Library.Word"
begin

unbundle bit_operations_syntax

section \<open>Python values used by ctmslib\<close>

text \<open>
  A \<^verbatim>\<open>bytearray\<close> is a list of 8-bit words; Python integers are unbounded and are
  modelled by \<^typ>\<open>int\<close>; a Python \<^verbatim>\<open>str\<close> is its list of code points.
\<close>

type_synonym byte = "8 word"
type_synonym pystr = "nat list"

text \<open>
  Every exception the modelled code can raise. The first nine are the
  \<^verbatim>\<open>MemoryError\<close>s of \<^verbatim>\<open>coff.py\<close>, told apart by their message; the others are
  raised by the Python runtime (\<^verbatim>\<open>struct.error\<close>, \<^verbatim>\<open>UnicodeDecodeError\<close>,
  \<^verbatim>\<open>IndexError\<close>, \<^verbatim>\<open>KeyError\<close>).
\<close>

datatype error =
    NotCoffImage
  | BadMagic int int
  | BadTarget
  | BadSectionTable
  | BadSymbolTable
  | BadStringTable
  | SectionNoName int
  | SectionBadData int
  | DuplicateSection pystr
  | StructError
  | UnicodeDecodeError
  | IndexError
  | KeyError

subsection \<open>Slicing\<close>

text \<open>
  \<^verbatim>\<open>xs[i:j]\<close> on a sequence of length \<open>n\<close>: a negative bound counts from the end, and
  both bounds are clamped to \<open>0..n\<close>.
\<close>

definition slice_bound :: "nat \<Rightarrow> int \<Rightarrow> nat" where
  "slice_bound n i = (if i < 0 then nat (max (int n + i) 0) else min (nat i) n)"

definition py_slice :: "'a list \<Rightarrow> int \<Rightarrow> int \<Rightarrow> 'a list" where
  "py_slice xs i j =
     (let lo = slice_bound (length xs) i; hi = slice_bound (length xs) j
      in take (hi - lo) (drop lo xs))"

text \<open>
  \<^verbatim>\<open>dst[i:j] = v\<close> on a \<^verbatim>\<open>bytearray\<close>: the slice is replaced by \<open>v\<close>; an empty or
  reversed slice inserts at its lower bound.
\<close>

definition py_setslice :: "'a list \<Rightarrow> int \<Rightarrow> int \<Rightarrow> 'a list \<Rightarrow> 'a list" where
  "py_setslice dst i j v =
     (let lo = slice_bound (length dst) i; hi = max lo (slice_bound (length dst) j)
      in take lo dst @ v @ drop hi dst)"

subsection \<open>\<^verbatim>\<open>struct.unpack\<close>, little-endian unsigned fields\<close>

fun le_uint :: "byte list \<Rightarrow> int" where
  "le_uint [] = 0"
| "le_uint (b # bs) = uint b + 256 * le_uint bs"

fun unpack_fields :: "nat list \<Rightarrow> byte list \<Rightarrow> int list" where
  "unpack_fields [] bs = []"
| "unpack_fields (w # ws) bs = le_uint (take w bs) # unpack_fields ws (drop w bs)"

text \<open>
  A format is the list of its field widths in bytes (\<^verbatim>\<open>H\<close> is 2, \<^verbatim>\<open>I\<close> is 4; with
  \<^verbatim>\<open><\<close> there is no padding). \<^verbatim>\<open>struct.unpack\<close> raises unless the buffer has exactly
  the size of the format.
\<close>

definition struct_unpack :: "nat list \<Rightarrow> byte list \<Rightarrow> error + int list" where
  "struct_unpack fmt bs =
     (if length bs \<noteq> sum_list fmt then Inl StructError else Inr (unpack_fields fmt bs))"

section \<open>\<^verbatim>\<open>dataops.align\<close>\<close>

definition align :: "int \<Rightarrow> int \<Rightarrow> int" where
  "align v a =
     (if a = 0 then v
      else let rem = v mod a in
        if rem = 0 then a else v + a - rem)"

section \<open>\<^verbatim>\<open>CoffImage\<close>: the header\<close>

definition MAGIC :: int where "MAGIC = 0x0108"
definition HDR_ENT_SIZE :: int where "HDR_ENT_SIZE = 50"
definition NAME_ENT_SIZE :: int where "NAME_ENT_SIZE = 8"
definition SECT_ENT_SIZE :: int where "SECT_ENT_SIZE = 48"
definition SYM_ENT_SIZE :: int where "SYM_ENT_SIZE = 18"

text \<open>\<^verbatim>\<open>"<2H3I5H6I"\<close> and \<^verbatim>\<open>"<12I"\<close>.\<close>

definition hdr_fmt :: "nat list" where
  "hdr_fmt = [2, 2, 4, 4, 4, 2, 2, 2, 2, 2, 4, 4, 4, 4, 4, 4]"

definition ent_fmt :: "nat list" where
  "ent_fmt = [4, 4, 4, 4, 4, 4, 4, 4, 4, 4, 4, 4]"

text \<open>\<^verbatim>\<open>_blens = {0x9D: 2, 0x98: 2}\<close>\<close>

definition blens :: "(int \<times> int) list" where
  "blens = [(0x9D, 2), (0x98, 2)]"

section \<open>\<^verbatim>\<open>CoffSectionFlags\<close>\<close>

definition TEXT :: int where "TEXT = 0x20"
definition DATA :: int where "DATA = 0x40"
definition BSS :: int where "BSS = 0x80"
definition ALLOC_MASK :: int where "ALLOC_MASK = TEXT OR DATA OR BSS"

definition is_allocated :: "int \<Rightarrow> bool" where
  "is_allocated flags \<longleftrightarrow> (flags AND ALLOC_MASK) \<noteq> 0"

section \<open>\<^verbatim>\<open>CoffSection\<close>\<close>

text \<open>
  The field \<open>s_data\<close> stands for the reference \<^verbatim>\<open>_data\<close> to the buffer of the whole
  image: its value is the content of that buffer.
\<close>

record CoffSection =
  s_name :: pystr
  s_idx :: int
  s_paddr :: int
  s_vaddr :: int
  s_flags :: int
  s_daddr :: int
  s_dlen :: int
  s_data :: "byte list"

text \<open>\<^verbatim>\<open>CoffSection._load\<close>; \<open>name\<close> is \<open>None\<close> when the caller resolved no name.\<close>

definition CoffSection_load ::
  "pystr option \<Rightarrow> int \<Rightarrow> int list \<Rightarrow> byte list \<Rightarrow> int \<Rightarrow> error + CoffSection" where
  "CoffSection_load name idx ent data blen =
     (case name of
        None \<Rightarrow> Inl (SectionNoName idx)
      | Some nm \<Rightarrow>
          let paddr = ent ! 2;
              vaddr = ent ! 3;
              dlen0 = ent ! 4;
              daddr = ent ! 5;
              flags = ent ! 10;
              dlen = (if is_allocated flags then dlen0 * blen else dlen0)
          in if daddr + dlen > int (length data) then Inl (SectionBadData idx)
             else Inr \<lparr>s_name = nm, s_idx = idx, s_paddr = paddr, s_vaddr = vaddr,
                        s_flags = flags, s_daddr = daddr, s_dlen = dlen, s_data = data\<rparr>)"

text \<open>The property \<^verbatim>\<open>CoffSection.data\<close>, as the bytes it holds.\<close>

definition sect_data :: "CoffSection \<Rightarrow> byte list" where
  "sect_data s = py_slice (s_data s) (s_daddr s) (s_daddr s + s_dlen s)"

section \<open>\<^verbatim>\<open>CoffSectionTable\<close>\<close>

record CoffSectionTable =
  t_sects :: "CoffSection list"
  t_tab :: "pystr \<rightharpoonup> CoffSection"

text \<open>The loop of \<^verbatim>\<open>CoffSectionTable._load\<close>, with the dictionary built so far.\<close>

fun tab_insert_all ::
  "CoffSection list \<Rightarrow> (pystr \<rightharpoonup> CoffSection) \<Rightarrow> error + (pystr \<rightharpoonup> CoffSection)" where
  "tab_insert_all [] tab = Inr tab"
| "tab_insert_all (sect # rest) tab =
     (case tab (s_name sect) of
        Some _ \<Rightarrow> Inl (DuplicateSection (s_name sect))
      | None \<Rightarrow> tab_insert_all rest (tab(s_name sect \<mapsto> sect)))"

definition CoffSectionTable_load :: "CoffSection list \<Rightarrow> error + CoffSectionTable" where
  "CoffSectionTable_load sects =
     (case tab_insert_all sects Map.empty of
        Inl e \<Rightarrow> Inl e
      | Inr tab \<Rightarrow> Inr \<lparr>t_sects = sects, t_tab = tab\<rparr>)"

text \<open>\<^verbatim>\<open>__len__\<close>, \<^verbatim>\<open>__iter__\<close> and \<^verbatim>\<open>__getitem__\<close>; a key is an \<^verbatim>\<open>int\<close> or a \<^verbatim>\<open>str\<close>.\<close>

datatype key = IntKey int | StrKey pystr

definition tab_len :: "CoffSectionTable \<Rightarrow> int" where
  "tab_len t = int (length (t_sects t))"

definition tab_iter :: "CoffSectionTable \<Rightarrow> CoffSection list" where
  "tab_iter t = t_sects t"

text \<open>\<^verbatim>\<open>xs[k]\<close> on a Python list: a negative index counts from the end.\<close>

definition list_getitem :: "'a list \<Rightarrow> int \<Rightarrow> error + 'a" where
  "list_getitem xs k =
     (let n = int (length xs); j = (if k < 0 then k + n else k)
      in if j < 0 \<or> n \<le> j then Inl IndexError else Inr (xs ! nat j))"

definition tab_getitem :: "CoffSectionTable \<Rightarrow> key \<Rightarrow> error + CoffSection" where
  "tab_getitem t k =
     (case k of
        IntKey i \<Rightarrow> list_getitem (t_sects t) i
      | StrKey nm \<Rightarrow> (case t_tab t nm of None \<Rightarrow> Inl KeyError | Some s \<Rightarrow> Inr s))"

section \<open>\<^verbatim>\<open>CoffImage\<close>\<close>

text \<open>\<open>i_sectab\<close> is the cache \<^verbatim>\<open>_sectab\<close>: \<open>None\<close> until the table was built.\<close>

record CoffImage =
  i_tid :: int
  i_entry :: int
  i_nsects :: int
  i_strtab_addr :: int
  i_blen :: int
  i_data :: "byte list"
  i_sectab :: "CoffSectionTable option"

text \<open>\<^verbatim>\<open>CoffImage._load\<close>\<close>

definition CoffImage_load :: "byte list \<Rightarrow> error + CoffImage" where
  "CoffImage_load data =
     (let dlen = int (length data) in
      if dlen < HDR_ENT_SIZE then Inl NotCoffImage
      else
        case struct_unpack hdr_fmt (py_slice data 0 HDR_ENT_SIZE) of
          Inl e \<Rightarrow> Inl e
        | Inr hdr \<Rightarrow>
            let nsects = hdr ! 1;
                symtab_addr = hdr ! 3;
                nsyms = hdr ! 4;
                tid = hdr ! 7;
                magic = hdr ! 8;
                entry = hdr ! 13;
                sectab_end = HDR_ENT_SIZE + nsects * SECT_ENT_SIZE;
                strtab_addr = symtab_addr + nsyms * SYM_ENT_SIZE;
                strtab_len = dlen - strtab_addr;
                strtab_end = strtab_addr + strtab_len
            in if magic \<noteq> MAGIC then Inl (BadMagic MAGIC magic)
               else if tid = 0 then Inl BadTarget
               else if sectab_end > dlen then Inl BadSectionTable
               else if sectab_end > symtab_addr \<or> strtab_addr > dlen then Inl BadSymbolTable
               else if strtab_len \<le> 0 \<or> strtab_end > dlen then Inl BadStringTable
               else Inr \<lparr>i_tid = tid, i_entry = entry, i_nsects = nsects,
                          i_strtab_addr = strtab_addr,
                          i_blen = (case map_of blens tid of Some b \<Rightarrow> b | None \<Rightarrow> 1),
                          i_data = data, i_sectab = None\<rparr>)"

subsection \<open>Names\<close>

text \<open>
  \<^verbatim>\<open>bytes.decode()\<close>: strict UTF-8. A sequence that is truncated, overlong, a
  surrogate or beyond U+10FFFF raises \<^verbatim>\<open>UnicodeDecodeError\<close>, here \<open>None\<close>.
\<close>

definition cont :: "nat \<Rightarrow> nat \<Rightarrow> nat \<Rightarrow> bool" where
  "cont lo hi b \<longleftrightarrow> lo \<le> b \<and> b \<le> hi"

fun utf8_decode :: "nat list \<Rightarrow> pystr option" where
  "utf8_decode [] = Some []"
| "utf8_decode [b0] = (if b0 < 0x80 then Some [b0] else None)"
| "utf8_decode [b0, b1] =
     (if b0 < 0x80 then map_option ((#) b0) (utf8_decode [b1])
      else if cont 0xC2 0xDF b0 \<and> cont 0x80 0xBF b1
        then Some [(b0 - 0xC0) * 64 + (b1 - 0x80)]
      else None)"
| "utf8_decode [b0, b1, b2] =
     (if b0 < 0x80 then map_option ((#) b0) (utf8_decode [b1, b2])
      else if cont 0xC2 0xDF b0 \<and> cont 0x80 0xBF b1
        then map_option ((#) ((b0 - 0xC0) * 64 + (b1 - 0x80))) (utf8_decode [b2])
      else if cont 0xE0 0xEF b0
          \<and> cont (if b0 = 0xE0 then 0xA0 else 0x80) (if b0 = 0xED then 0x9F else 0xBF) b1
          \<and> cont 0x80 0xBF b2
        then Some [(b0 - 0xE0) * 4096 + (b1 - 0x80) * 64 + (b2 - 0x80)]
      else None)"
| "utf8_decode (b0 # b1 # b2 # b3 # bs) =
     (if b0 < 0x80 then map_option ((#) b0) (utf8_decode (b1 # b2 # b3 # bs))
      else if cont 0xC2 0xDF b0 \<and> cont 0x80 0xBF b1
        then map_option ((#) ((b0 - 0xC0) * 64 + (b1 - 0x80))) (utf8_decode (b2 # b3 # bs))
      else if cont 0xE0 0xEF b0
          \<and> cont (if b0 = 0xE0 then 0xA0 else 0x80) (if b0 = 0xED then 0x9F else 0xBF) b1
          \<and> cont 0x80 0xBF b2
        then map_option ((#) ((b0 - 0xE0) * 4096 + (b1 - 0x80) * 64 + (b2 - 0x80)))
               (utf8_decode (b3 # bs))
      else if cont 0xF0 0xF4 b0
          \<and> cont (if b0 = 0xF0 then 0x90 else 0x80) (if b0 = 0xF4 then 0x8F else 0xBF) b1
          \<and> cont 0x80 0xBF b2 \<and> cont 0x80 0xBF b3
        then map_option
               ((#) ((b0 - 0xF0) * 262144 + (b1 - 0x80) * 4096 + (b2 - 0x80) * 64 + (b3 - 0x80)))
               (utf8_decode bs)
      else None)"

definition bytes_decode :: "byte list \<Rightarrow> error + pystr" where
  "bytes_decode bs =
     (case utf8_decode (map unat bs) of None \<Rightarrow> Inl UnicodeDecodeError | Some s \<Rightarrow> Inr s)"

text \<open>The loop of \<^verbatim>\<open>CoffImage._get_str\<close>: the index of the first NUL, or the length.\<close>

function get_str_slen :: "byte list \<Rightarrow> nat \<Rightarrow> nat" where
  "get_str_slen data slen =
     (if slen < length data \<and> data ! slen \<noteq> 0 then get_str_slen data (slen + 1) else slen)"
  by pat_completeness auto
termination
  by (relation "measure (\<lambda>(data, slen). length data - slen)") auto

declare get_str_slen.simps [simp del]

definition get_str :: "byte list \<Rightarrow> error + pystr" where
  "get_str data = bytes_decode (py_slice data 0 (int (get_str_slen data 0)))"

text \<open>\<^verbatim>\<open>CoffImage._get_ent_name\<close>: \<open>Inr None\<close> is the returned \<^verbatim>\<open>None\<close>.\<close>

definition get_ent_name ::
  "CoffImage \<Rightarrow> byte list \<Rightarrow> int \<Rightarrow> bool \<Rightarrow> int \<Rightarrow> error + pystr option" where
  "get_ent_name img data addr has_str str_offs =
     (let addr' = (if has_str then i_strtab_addr img + str_offs else addr);
          mx = (if has_str then int (length data) - addr' else NAME_ENT_SIZE)
      in if mx > 0
         then (case get_str (py_slice data addr' (addr' + mx)) of
                 Inl e \<Rightarrow> Inl e
               | Inr s \<Rightarrow> Inr (Some s))
         else Inr None)"

text \<open>
  The loop of \<^verbatim>\<open>CoffImage._load_sect_tab\<close> over the remaining indices, with the
  running address and the sections appended so far.
\<close>

fun load_sects ::
  "CoffImage \<Rightarrow> int list \<Rightarrow> int \<Rightarrow> CoffSection list \<Rightarrow> error + CoffSection list" where
  "load_sects img [] addr sects = Inr sects"
| "load_sects img (idx # idxs) addr sects =
     (case struct_unpack ent_fmt (py_slice (i_data img) addr (addr + SECT_ENT_SIZE)) of
        Inl e \<Rightarrow> Inl e
      | Inr ent \<Rightarrow>
          (case get_ent_name img (i_data img) addr (ent ! 0 = 0) (ent ! 1) of
             Inl e \<Rightarrow> Inl e
           | Inr name \<Rightarrow>
               (case CoffSection_load name idx ent (i_data img) (i_blen img) of
                  Inl e \<Rightarrow> Inl e
                | Inr s \<Rightarrow> load_sects img idxs (addr + SECT_ENT_SIZE) (sects @ [s]))))"

definition load_sect_tab :: "CoffImage \<Rightarrow> error + CoffSectionTable" where
  "load_sect_tab img =
     (case load_sects img [0 .. i_nsects img - 1] HDR_ENT_SIZE [] of
        Inl e \<Rightarrow> Inl e
      | Inr sects \<Rightarrow> CoffSectionTable_load sects)"

text \<open>
  The property \<^verbatim>\<open>CoffImage.sectab\<close>: it returns the table and the image, whose cache
  is filled by the first successful call.
\<close>

definition sectab :: "CoffImage \<Rightarrow> error + (CoffSectionTable \<times> CoffImage)" where
  "sectab img =
     (case i_sectab img of
        Some t \<Rightarrow> Inr (t, img)
      | None \<Rightarrow>
          (case load_sect_tab img of
             Inl e \<Rightarrow> Inl e
           | Inr t \<Rightarrow> Inr (t, img\<lparr>i_sectab := Some t\<rparr>)))"

text \<open>
  \<^verbatim>\<open>CoffImage.copy_sects\<close>: the body of the loop for one section, and the method,
  which returns the destination and the image after the call.
\<close>

definition copy_sect :: "int \<Rightarrow> int \<Rightarrow> byte list \<Rightarrow> CoffSection \<Rightarrow> byte list" where
  "copy_sect addr end_addr dst sect =
     (let paddr = s_paddr sect; vaddr = s_vaddr sect; dlen = s_dlen sect
      in if paddr \<ge> addr \<and> paddr + dlen \<le> end_addr
           then py_setslice dst (paddr - addr) (paddr - addr + dlen) (sect_data sect)
         else if vaddr \<ge> addr \<and> vaddr + dlen \<le> end_addr
           then py_setslice dst (vaddr - addr) (vaddr - addr + dlen) (sect_data sect)
         else dst)"

fun copy_loop :: "int \<Rightarrow> int \<Rightarrow> CoffSection list \<Rightarrow> byte list \<Rightarrow> byte list" where
  "copy_loop addr end_addr [] dst = dst"
| "copy_loop addr end_addr (sect # rest) dst =
     copy_loop addr end_addr rest (copy_sect addr end_addr dst sect)"

definition copy_sects :: "CoffImage \<Rightarrow> int \<Rightarrow> byte list \<Rightarrow> error + (byte list \<times> CoffImage)" where
  "copy_sects img addr dst =
     (let end_addr = addr + int (length dst) in
      case sectab img of
        Inl e \<Rightarrow> Inl e
      | Inr (t, img') \<Rightarrow> Inr (copy_loop addr end_addr (tab_iter t) dst, img'))"

section \<open>Buffers as objects\<close>

text \<open>
  Whether \<^verbatim>\<open>CoffSection.data\<close> is a view or a copy depends on the kind of object that
  \<^verbatim>\<open>_data\<close> refers to. A store holds the content of every \<^verbatim>\<open>bytearray\<close> object; a
  \<^verbatim>\<open>memoryview\<close> refers to a range (start and length) of the bytes of one of them.
\<close>

datatype buffer = Bytearray nat | Memoryview nat nat nat

type_synonym store = "byte list list"

fun buf_bytes :: "store \<Rightarrow> buffer \<Rightarrow> byte list" where
  "buf_bytes st (Bytearray r) = st ! r"
| "buf_bytes st (Memoryview r off n) = take n (drop off (st ! r))"

text \<open>
  \<^verbatim>\<open>b[i:j]\<close>: the slice of a \<^verbatim>\<open>bytearray\<close> is a new \<^verbatim>\<open>bytearray\<close> with a copy of the
  bytes; the slice of a \<^verbatim>\<open>memoryview\<close> is a \<^verbatim>\<open>memoryview\<close> of the same object.
\<close>

fun buf_getslice :: "store \<Rightarrow> buffer \<Rightarrow> int \<Rightarrow> int \<Rightarrow> store \<times> buffer" where
  "buf_getslice st (Bytearray r) i j = (st @ [py_slice (st ! r) i j], Bytearray (length st))"
| "buf_getslice st (Memoryview r off n) i j =
     (let lo = slice_bound n i; hi = slice_bound n j
      in (st, Memoryview r (off + lo) (hi - lo)))"

text \<open>\<^verbatim>\<open>b[k] = v\<close> with an index \<open>k \<ge> 0\<close>.\<close>

fun buf_setitem :: "store \<Rightarrow> buffer \<Rightarrow> nat \<Rightarrow> byte \<Rightarrow> error + store" where
  "buf_setitem st (Bytearray r) k v =
     (if k < length (st ! r) then Inr (st[r := (st ! r)[k := v]]) else Inl IndexError)"
| "buf_setitem st (Memoryview r off n) k v =
     (if k < n then Inr (st[r := (st ! r)[off + k := v]]) else Inl IndexError)"

text \<open>
  The property \<^verbatim>\<open>CoffSection.data\<close> on objects, \<open>buf\<close> being the object that the
  field \<^verbatim>\<open>_data\<close> of the section refers to. \<^verbatim>\<open>_load_sect_tab\<close> hands every section the
  \<^verbatim>\<open>_data\<close> of the image, which is the very object the constructor of the image was
  given: a \<^verbatim>\<open>bytearray\<close> by its signature, and in \<^verbatim>\<open>from_file\<close>.
\<close>

definition data_obj :: "store \<Rightarrow> buffer \<Rightarrow> CoffSection \<Rightarrow> store \<times> buffer" where
  "data_obj st buf s = buf_getslice st buf (s_daddr s) (s_daddr s + s_dlen s)"

section \<open>Notation for the statements\<close>

text \<open>The tuple \<^verbatim>\<open>hdr\<close> that \<^verbatim>\<open>CoffImage._load\<close> unpacks from the first 50 bytes.\<close>

definition hdr :: "byte list \<Rightarrow> int list" where
  "hdr data = unpack_fields hdr_fmt (py_slice data 0 HDR_ENT_SIZE)"

text \<open>The tuple \<^verbatim>\<open>ent\<close> unpacked from the \<open>k\<close>-th entry of the section table.\<close>

definition sect_ent :: "byte list \<Rightarrow> nat \<Rightarrow> int list" where
  "sect_ent data k =
     unpack_fields ent_fmt
       (py_slice data (HDR_ENT_SIZE + SECT_ENT_SIZE * int k)
          (HDR_ENT_SIZE + SECT_ENT_SIZE * int k + SECT_ENT_SIZE))"

text \<open>One round of the loop of \<^verbatim>\<open>_load_sect_tab\<close>: the section built at an address.\<close>

definition load_sect :: "CoffImage \<Rightarrow> int \<Rightarrow> int \<Rightarrow> error + CoffSection" where
  "load_sect img idx addr =
     (case struct_unpack ent_fmt (py_slice (i_data img) addr (addr + SECT_ENT_SIZE)) of
        Inl e \<Rightarrow> Inl e
      | Inr ent \<Rightarrow>
          (case get_ent_name img (i_data img) addr (ent ! 0 = 0) (ent ! 1) of
             Inl e \<Rightarrow> Inl e
           | Inr name \<Rightarrow> CoffSection_load name idx ent (i_data img) (i_blen img)))"

text \<open>
  The images a program can hold: the result of the constructor on a buffer, and the
  image after an access to \<^verbatim>\<open>sectab\<close>.
\<close>

inductive constructed :: "byte list \<Rightarrow> CoffImage \<Rightarrow> bool" where
  init: "CoffImage_load data = Inr img \<Longrightarrow> constructed data img"
| access: "constructed data img \<Longrightarrow> sectab img = Inr (t, img') \<Longrightarrow> constructed data img'"



section \<open>Concrete images\<close>

text \<open>
  The smallest valid image: a header with no section and no symbol (target id 0x9D,
  magic 0x0108, symbol table at 50, entry 0x1000) and a string table of one byte.
\<close>

definition img_minimal :: "byte list" where
  "img_minimal =
     [0xC2, 0x00, 0x00, 0x00, 0x00, 0x00, 0x00, 0x00, 0x32, 0x00,
      0x00, 0x00, 0x00, 0x00, 0x00, 0x00, 0x1C, 0x00, 0x00, 0x00,
      0x9D, 0x00, 0x08, 0x01, 0x00, 0x00, 0x00, 0x00, 0x00, 0x00,
      0x00, 0x00, 0x00, 0x00, 0x00, 0x00, 0x00, 0x00, 0x00, 0x10,
      0x00, 0x00, 0x00, 0x00, 0x00, 0x00, 0x00, 0x00, 0x00, 0x00,
      0x00]"

text \<open>
  An image of 154 bytes with two sections (target id 0x9D, so the multiplier is 2).
  Entry 0, at 50, has the inline name \<^verbatim>\<open>.a\<close>, physical address 0x10, virtual address
  0x12, raw length 1, data at 146 and flags 0x20 (TEXT). Entry 1, at 98, takes its name
  \<^verbatim>\<open>.b\<close> from the string table at offset 1, has physical and virtual address 0, raw
  length 2, data at 148 and flags 0. The symbol table is empty and the string table
  starts at 150.
\<close>

definition img_two :: "byte list" where
  "img_two =
     [0xC2, 0x00, 0x02, 0x00, 0x00, 0x00, 0x00, 0x00, 0x96, 0x00,
      0x00, 0x00, 0x00, 0x00, 0x00, 0x00, 0x1C, 0x00, 0x00, 0x00,
      0x9D, 0x00, 0x08, 0x01, 0x00, 0x00, 0x00, 0x00, 0x00, 0x00,
      0x00, 0x00, 0x00, 0x00, 0x00, 0x00, 0x00, 0x00, 0x00, 0x10,
      0x00, 0x00, 0x00, 0x00, 0x00, 0x00, 0x00, 0x00, 0x00, 0x00,
      0x2E, 0x61, 0x00, 0x00, 0x00, 0x00, 0x00, 0x00, 0x10, 0x00,
      0x00, 0x00, 0x12, 0x00, 0x00, 0x00, 0x01, 0x00, 0x00, 0x00,
      0x92, 0x00, 0x00, 0x00, 0x00, 0x00, 0x00, 0x00, 0x00, 0x00,
      0x00, 0x00, 0x00, 0x00, 0x00, 0x00, 0x00, 0x00, 0x00, 0x00,
      0x20, 0x00, 0x00, 0x00, 0x00, 0x00, 0x00, 0x00, 0x00, 0x00,
      0x00, 0x00, 0x01, 0x00, 0x00, 0x00, 0x00, 0x00, 0x00, 0x00,
      0x00, 0x00, 0x00, 0x00, 0x02, 0x00, 0x00, 0x00, 0x94, 0x00,
      0x00, 0x00, 0x00, 0x00, 0x00, 0x00, 0x00, 0x00, 0x00, 0x00,
      0x00, 0x00, 0x00, 0x00, 0x00, 0x00, 0x00, 0x00, 0x00, 0x00,
      0x00, 0x00, 0x00, 0x00, 0x00, 0x00, 0x11, 0x22, 0x33, 0x44,
      0x00, 0x2E, 0x62, 0x00]"

text \<open>
  Malformed variants of it: the second name changed to \<^verbatim>\<open>.a\<close>; the string offset of
  entry 1 pointing past the buffer; the raw length of entry 0 set to 255; the first
  byte of the inline name of entry 0 set to 0xFF, which no UTF-8 text contains.
\<close>

definition img_dup :: "byte list" where
  "img_dup = img_two[152 := 0x61]"

definition img_noname :: "byte list" where
  "img_noname = img_two[102 := 9]"

definition img_baddata :: "byte list" where
  "img_baddata = img_two[66 := 0xFF]"

definition img_badutf :: "byte list" where
  "img_badutf = img_two[50 := 0xFF]"

text \<open>The image object that the constructor returns for \<open>img_two\<close>.\<close>

definition img_two_obj :: CoffImage where
  "img_two_obj = \<lparr>i_tid = 0x9D, i_entry = 0x1000, i_nsects = 2, i_strtab_addr = 150,
                    i_blen = 2, i_data = img_two, i_sectab = None\<rparr>"

text \<open>The two sections of \<open>img_two\<close> and their table.\<close>

definition sect_a :: CoffSection where
  "sect_a = \<lparr>s_name = [0x2E, 0x61], s_idx = 0, s_paddr = 0x10, s_vaddr = 0x12, s_flags = 0x20,
              s_daddr = 146, s_dlen = 2, s_data = img_two\<rparr>"

definition sect_b :: CoffSection where
  "sect_b = \<lparr>s_name = [0x2E, 0x62], s_idx = 1, s_paddr = 0, s_vaddr = 0, s_flags = 0,
              s_daddr = 148, s_dlen = 2, s_data = img_two\<rparr>"

definition tab_two :: CoffSectionTable where
  "tab_two = \<lparr>t_sects = [sect_a, sect_b],
               t_tab = [[0x2E, 0x61] \<mapsto> sect_a, [0x2E, 0x62] \<mapsto> sect_b]\<rparr>"

text \<open>A destination of four bytes, pre-filled with 0xFF.\<close>

definition dst4 :: "byte list" where
  "dst4 = [0xFF, 0xFF, 0xFF, 0xFF]"

section \<open>Slices and unpacked fields\<close>

lemmas sizes = HDR_ENT_SIZE_def SECT_ENT_SIZE_def SYM_ENT_SIZE_def NAME_ENT_SIZE_def MAGIC_def

lemma py_slice_nonneg:
  "0 \<le> i \<Longrightarrow> i \<le> j \<Longrightarrow> j \<le> int (length xs) \<Longrightarrow>
     py_slice xs i j = take (nat (j - i)) (drop (nat i) xs)"
  by (auto simp add: py_slice_def slice_bound_def Let_def min_def nat_diff_distrib nat_le_iff)

lemma length_py_slice:
  "0 \<le> i \<Longrightarrow> i \<le> j \<Longrightarrow> j \<le> int (length xs) \<Longrightarrow> length (py_slice xs i j) = nat (j - i)"
  by (simp add: py_slice_nonneg)

lemma hdr_unpack:
  "50 \<le> length data \<Longrightarrow> struct_unpack hdr_fmt (py_slice data 0 HDR_ENT_SIZE) = Inr (hdr data)"
  by (simp add: struct_unpack_def hdr_def length_py_slice sizes hdr_fmt_def)

lemma unpack_fields_nth:
  "k < length ws \<Longrightarrow>
     unpack_fields ws bs ! k = le_uint (take (ws ! k) (drop (sum_list (take k ws)) bs))"
proof (induction ws arbitrary: k bs)
  case Nil
  then show ?case by simp
next
  case (Cons w ws)
  show ?case
  proof (cases k)
    case 0
    then show ?thesis by simp
  next
    case (Suc k')
    with Cons.prems have "k' < length ws" by simp
    from Cons.IH [OF this, of "drop w bs"] Suc show ?thesis
      by (simp add: add.commute)
  qed
qed

lemma length_unpack_fields: "length (unpack_fields ws bs) = length ws"
  by (induction ws arbitrary: bs) simp_all

lemma py_slice_0: "0 \<le> j \<Longrightarrow> py_slice xs 0 j = take (nat j) xs"
  by (simp add: py_slice_def slice_bound_def Let_def min_def)

lemma length_hdr_fmt: "length hdr_fmt = 16"
  by (simp add: hdr_fmt_def)

lemma hdr_nth:
  "k < 16 \<Longrightarrow>
     hdr data ! k = le_uint (take (hdr_fmt ! k) (drop (sum_list (take k hdr_fmt)) (take 50 data)))"
  unfolding hdr_def by (subst unpack_fields_nth) (simp_all add: length_hdr_fmt py_slice_0 sizes)

lemma hdr_bytes:
  shows "hdr data ! 1 = le_uint (take 2 (drop 2 data))"
    and "hdr data ! 3 = le_uint (take 4 (drop 8 data))"
    and "hdr data ! 4 = le_uint (take 4 (drop 12 data))"
    and "hdr data ! 7 = le_uint (take 2 (drop 20 data))"
    and "hdr data ! 8 = le_uint (take 2 (drop 22 data))"
    and "hdr data ! 13 = le_uint (take 4 (drop 38 data))"
  by (simp_all add: hdr_nth hdr_fmt_def drop_take)

lemma le_uint_bounds: "0 \<le> le_uint bs \<and> le_uint bs < 256 ^ length bs"
proof (induction bs)
  case Nil
  then show ?case by simp
next
  case (Cons b bs)
  have "uint b < 256" using uint_bounded [of b] by simp
  moreover have "0 \<le> uint b" by simp
  ultimately show ?case using Cons by simp
qed

lemma hdr_nonneg: "k < 16 \<Longrightarrow> 0 \<le> hdr data ! k"
  by (simp add: hdr_nth le_uint_bounds)

section \<open>The header checks\<close>

lemma CoffImage_load_unfold:
  "CoffImage_load data =
     (if int (length data) < 50 then Inl NotCoffImage
      else if hdr data ! 8 \<noteq> 0x108 then Inl (BadMagic 0x108 (hdr data ! 8))
      else if hdr data ! 7 = 0 then Inl BadTarget
      else if 50 + hdr data ! 1 * 48 > int (length data) then Inl BadSectionTable
      else if 50 + hdr data ! 1 * 48 > hdr data ! 3
              \<or> hdr data ! 3 + hdr data ! 4 * 18 > int (length data) then Inl BadSymbolTable
      else if int (length data) - (hdr data ! 3 + hdr data ! 4 * 18) \<le> 0 then Inl BadStringTable
      else Inr \<lparr>i_tid = hdr data ! 7, i_entry = hdr data ! 13, i_nsects = hdr data ! 1,
                 i_strtab_addr = hdr data ! 3 + hdr data ! 4 * 18,
                 i_blen = (if hdr data ! 7 = 0x9D \<or> hdr data ! 7 = 0x98 then 2 else 1),
                 i_data = data, i_sectab = None\<rparr>)"
proof (cases "50 \<le> length data")
  case True
  then have "struct_unpack hdr_fmt (py_slice data 0 50) = Inr (hdr data)"
    using hdr_unpack [of data] by (simp add: sizes)
  with True show ?thesis
    by (simp add: CoffImage_load_def sizes Let_def blens_def)
next
  case False
  then show ?thesis
    by (simp add: CoffImage_load_def sizes Let_def)
qed

lemma hdr_img_minimal:
  "hdr img_minimal = [0xC2, 0, 0, 50, 0, 28, 0, 0x9D, 0x108, 0, 0, 0, 0, 0x1000, 0, 0]"
  by (simp add: hdr_def img_minimal_def hdr_fmt_def py_slice_def slice_bound_def sizes)

lemma length_img_minimal: "length img_minimal = 51"
  by (simp add: img_minimal_def)

text \<open>
  Claim C1. \<^verbatim>\<open>CoffImage._load\<close> runs six checks in a fixed order and the first
  one that fails decides the error: a buffer shorter than 50 bytes; a magic (field 8)
  other than 0x0108, reported with the expected and the read value; a target id
  (field 7) of 0; a section table ending beyond the buffer; the symbol-table check; a
  string table of length at most 0 or ending beyond the buffer. When none fails, an
  image is constructed.
\<close>

theorem CoffImage_load_order:
  "(let dlen = int (length data); h = hdr data;
        sectab_end = 50 + h ! 1 * 48;
        strtab_addr = h ! 3 + h ! 4 * 18;
        strtab_len = dlen - strtab_addr;
        strtab_end = strtab_addr + strtab_len;
        c1 = (dlen < 50);
        c2 = (h ! 8 \<noteq> 0x0108);
        c3 = (h ! 7 = 0);
        c4 = (sectab_end > dlen);
        c5 = (sectab_end > h ! 3 \<or> strtab_addr > dlen);
        c6 = (strtab_len \<le> 0 \<or> strtab_end > dlen)
    in (CoffImage_load data = Inl NotCoffImage \<longleftrightarrow> c1) \<and>
       (CoffImage_load data = Inl (BadMagic 0x0108 (h ! 8)) \<longleftrightarrow> \<not> c1 \<and> c2) \<and>
       (CoffImage_load data = Inl BadTarget \<longleftrightarrow> \<not> c1 \<and> \<not> c2 \<and> c3) \<and>
       (CoffImage_load data = Inl BadSectionTable \<longleftrightarrow> \<not> c1 \<and> \<not> c2 \<and> \<not> c3 \<and> c4) \<and>
       (CoffImage_load data = Inl BadSymbolTable \<longleftrightarrow> \<not> c1 \<and> \<not> c2 \<and> \<not> c3 \<and> \<not> c4 \<and> c5) \<and>
       (CoffImage_load data = Inl BadStringTable \<longleftrightarrow>
          \<not> c1 \<and> \<not> c2 \<and> \<not> c3 \<and> \<not> c4 \<and> \<not> c5 \<and> c6) \<and>
       ((\<exists>img. CoffImage_load data = Inr img) \<longleftrightarrow>
          \<not> c1 \<and> \<not> c2 \<and> \<not> c3 \<and> \<not> c4 \<and> \<not> c5 \<and> \<not> c6))"
  unfolding Let_def by (simp add: CoffImage_load_unfold)

theorem CoffImage_load_order_witness:
  "(\<exists>img. CoffImage_load img_minimal = Inr img) \<and>
   CoffImage_load (take 49 img_minimal) = Inl NotCoffImage \<and>
   CoffImage_load (img_minimal[23 := 0]) = Inl (BadMagic 0x0108 8) \<and>
   CoffImage_load (img_minimal[20 := 0]) = Inl BadTarget \<and>
   CoffImage_load (img_minimal[2 := 1]) = Inl BadSectionTable \<and>
   CoffImage_load (img_minimal[8 := 0]) = Inl BadSymbolTable \<and>
   CoffImage_load (img_minimal[8 := 51]) = Inl BadStringTable"
proof -
  have l: "length (take 49 img_minimal) = 49"
    by (simp add: length_img_minimal)
  have h1: "hdr (img_minimal[23 := 0]) = [0xC2, 0, 0, 50, 0, 28, 0, 0x9D, 8, 0, 0, 0, 0, 0x1000, 0, 0]"
    by code_simp
  have h2: "hdr (img_minimal[20 := 0]) = [0xC2, 0, 0, 50, 0, 28, 0, 0, 0x108, 0, 0, 0, 0, 0x1000, 0, 0]"
    by code_simp
  have h3: "hdr (img_minimal[2 := 1]) = [0xC2, 1, 0, 50, 0, 28, 0, 0x9D, 0x108, 0, 0, 0, 0, 0x1000, 0, 0]"
    by code_simp
  have h4: "hdr (img_minimal[8 := 0]) = [0xC2, 0, 0, 0, 0, 28, 0, 0x9D, 0x108, 0, 0, 0, 0, 0x1000, 0, 0]"
    by code_simp
  have h5: "hdr (img_minimal[8 := 51]) = [0xC2, 0, 0, 51, 0, 28, 0, 0x9D, 0x108, 0, 0, 0, 0, 0x1000, 0, 0]"
    by code_simp
  show ?thesis
    using CoffImage_load_order [of img_minimal] CoffImage_load_order [of "take 49 img_minimal"]
      CoffImage_load_order [of "img_minimal[23 := 0]"]
      CoffImage_load_order [of "img_minimal[20 := 0]"]
      CoffImage_load_order [of "img_minimal[2 := 1]"]
      CoffImage_load_order [of "img_minimal[8 := 0]"]
      CoffImage_load_order [of "img_minimal[8 := 51]"]
    by (simp add: Let_def hdr_img_minimal length_img_minimal l h1 h2 h3 h4 h5)
qed

text \<open>
  Claim C2, as stated, fails: with the section table ending at or before the symbol
  table and the string table inside the buffer, no symbol-table error is raised.
\<close>

theorem symtab_check_counterexample:
  "50 \<le> length img_minimal \<and> hdr img_minimal ! 8 = 0x0108 \<and> hdr img_minimal ! 7 \<noteq> 0 \<and>
   50 + hdr img_minimal ! 1 * 48 \<le> int (length img_minimal) \<and>
   50 + hdr img_minimal ! 1 * 48 \<le> hdr img_minimal ! 3 \<and>
   CoffImage_load img_minimal \<noteq> Inl BadSymbolTable"
  by (simp add: CoffImage_load_unfold hdr_img_minimal length_img_minimal)

text \<open>
  Claim C2, amended. Once the header-size, magic, target-id and section-table checks
  have passed, the invalid-symbol-table error is raised exactly when the section table
  ends beyond the declared symbol-table address (overlaps the symbol table), or the
  computed string-table address exceeds the buffer length.
\<close>

theorem symtab_check_amended:
  assumes "50 \<le> length data" and "hdr data ! 8 = 0x0108" and "hdr data ! 7 \<noteq> 0"
    and "50 + hdr data ! 1 * 48 \<le> int (length data)"
  shows "CoffImage_load data = Inl BadSymbolTable \<longleftrightarrow>
           50 + hdr data ! 1 * 48 > hdr data ! 3
           \<or> hdr data ! 3 + hdr data ! 4 * 18 > int (length data)"
  using assms by (simp add: CoffImage_load_unfold)

theorem symtab_check_amended_witness:
  "50 \<le> length (img_minimal[8 := 0]) \<and> hdr (img_minimal[8 := 0]) ! 8 = 0x0108 \<and>
   hdr (img_minimal[8 := 0]) ! 7 \<noteq> 0 \<and>
   50 + hdr (img_minimal[8 := 0]) ! 1 * 48 \<le> int (length (img_minimal[8 := 0])) \<and>
   50 + hdr (img_minimal[8 := 0]) ! 1 * 48 > hdr (img_minimal[8 := 0]) ! 3 \<and>
   CoffImage_load (img_minimal[8 := 0]) = Inl BadSymbolTable"
proof -
  have h: "hdr (img_minimal[8 := 0]) = [0xC2, 0, 0, 0, 0, 28, 0, 0x9D, 0x108, 0, 0, 0, 0, 0x1000, 0, 0]"
    by code_simp
  show ?thesis
    using symtab_check_amended [of "img_minimal[8 := 0]"]
    by (simp add: h length_img_minimal)
qed

section \<open>\<^verbatim>\<open>align\<close>\<close>

text \<open>
  Claim C9, as stated, fails for a negative alignment: 5 is no multiple of -4 and
  \<^verbatim>\<open>align(5, -4)\<close> is 4, which is not above 5.
\<close>

theorem align_counterexample:
  "(-4::int) \<noteq> 0 \<and> (5::int) mod (-4) \<noteq> 0 \<and> align 5 (-4) = 4 \<and> \<not> 5 < align 5 (-4)"
  by (simp add: align_def)

text \<open>
  Claim C9, amended. \<^verbatim>\<open>align(value, 0)\<close> is \<open>value\<close>. For a non-zero alignment, a
  value that is a multiple of it gives the alignment itself, and any other value gives
  \<open>value + alignment - value mod alignment\<close>, a multiple of the alignment: the least
  one above the value when the alignment is positive, the greatest one below the value
  when it is negative.
\<close>

theorem align_amended:
  "align v 0 = v \<and>
   (a \<noteq> 0 \<and> v mod a = 0 \<longrightarrow> align v a = a) \<and>
   (a \<noteq> 0 \<and> v mod a \<noteq> 0 \<longrightarrow>
      align v a = v + a - v mod a \<and> a dvd align v a \<and>
      (0 < a \<longrightarrow> v < align v a \<and> (\<forall>m. a dvd m \<and> v < m \<longrightarrow> align v a \<le> m)) \<and>
      (a < 0 \<longrightarrow> align v a < v \<and> (\<forall>m. a dvd m \<and> m < v \<longrightarrow> m \<le> align v a)))"
proof -
  have eq: "v + a - v mod a = a * (v div a + 1)"
    by (simp add: algebra_simps minus_mod_eq_mult_div)
  have pos: "align v a \<le> m" if "0 < a" "v mod a \<noteq> 0" "a dvd m" "v < m" for m
  proof -
    from \<open>a dvd m\<close> obtain k where m: "m = a * k" ..
    have "0 \<le> v mod a" using \<open>0 < a\<close> by simp
    then have "a * (v div a) \<le> v"
      using mult_div_mod_eq [of a v] by linarith
    with \<open>v < m\<close> m have "a * (v div a) < a * k" by simp
    with \<open>0 < a\<close> have "v div a < k" by (simp add: mult_less_cancel_left_pos)
    then have "a * (v div a + 1) \<le> a * k" using \<open>0 < a\<close> by (simp add: mult_le_cancel_left_pos)
    with that eq m show ?thesis by (simp add: align_def Let_def)
  qed
  have neg: "m \<le> align v a" if "a < 0" "v mod a \<noteq> 0" "a dvd m" "m < v" for m
  proof -
    from \<open>a dvd m\<close> obtain k where m: "m = a * k" ..
    have "v mod a \<le> 0" using \<open>a < 0\<close> by simp
    then have "v \<le> a * (v div a)"
      using mult_div_mod_eq [of a v] by linarith
    with \<open>m < v\<close> m have "a * k < a * (v div a)" by simp
    with \<open>a < 0\<close> have "v div a < k" by (simp add: mult_less_cancel_left_neg)
    then have "a * k \<le> a * (v div a + 1)" using \<open>a < 0\<close> by (simp add: mult_le_cancel_left_neg)
    with that eq m show ?thesis by (simp add: align_def Let_def)
  qed
  have above: "v < v + a - v mod a" if "0 < a"
    using pos_mod_bound [OF that, of v] by linarith
  have below: "v + a - v mod a < v" if "a < 0"
    using neg_mod_bound [OF that, of v] by linarith
  have dv: "a dvd v + a - v mod a"
    unfolding eq by simp
  show ?thesis
    using pos neg above below dv by (auto simp add: align_def Let_def)
qed

theorem align_amended_witness:
  "align 9 0 = 9 \<and> (4::int) \<noteq> 0 \<and> (8::int) mod 4 = 0 \<and> align 8 4 = 4 \<and>
   (9::int) mod 4 \<noteq> 0 \<and> align 9 4 = 12 \<and> 9 < align 9 4 \<and>
   (5::int) mod (-4) \<noteq> 0 \<and> align 5 (-4) = 4 \<and> align 5 (-4) < 5"
  using align_amended [of 9 4] align_amended [of 8 4] align_amended [of 5 "-4"]
  by simp

section \<open>Names\<close>

text \<open>\<^verbatim>\<open>_get_str\<close> decodes the bytes before the first NUL.\<close>

lemma get_str_slen_drop:
  "slen \<le> length data \<Longrightarrow>
     get_str_slen data slen = slen + length (takeWhile (\<lambda>b. b \<noteq> 0) (drop slen data))"
proof (induction data slen rule: get_str_slen.induct)
  case (1 data slen)
  show ?case
  proof (cases "slen < length data \<and> data ! slen \<noteq> 0")
    case True
    then have d: "drop slen data = data ! slen # drop (Suc slen) data"
      by (simp add: Cons_nth_drop_Suc)
    from True "1.IH" have "get_str_slen data (slen + 1)
        = slen + 1 + length (takeWhile (\<lambda>b. b \<noteq> 0) (drop (slen + 1) data))"
      by simp
    with True d show ?thesis
      by (subst get_str_slen.simps) simp
  next
    case False
    show ?thesis
    proof (cases "slen < length data")
      case True
      with False have z: "data ! slen = 0" by simp
      from True have "drop slen data = data ! slen # drop (Suc slen) data"
        by (simp add: Cons_nth_drop_Suc)
      with z False show ?thesis
        by (subst get_str_slen.simps) simp
    next
      case False
      with "1.prems" show ?thesis
        by (subst get_str_slen.simps) simp
    qed
  qed
qed

lemma get_str_takeWhile: "get_str data = bytes_decode (takeWhile (\<lambda>b. b \<noteq> 0) data)"
proof -
  have "get_str_slen data 0 = length (takeWhile (\<lambda>b. b \<noteq> 0) data)"
    using get_str_slen_drop [of 0 data] by simp
  then have "py_slice data 0 (int (get_str_slen data 0)) = takeWhile (\<lambda>b. b \<noteq> 0) data"
    by (simp add: py_slice_0 takeWhile_eq_take [symmetric])
  then show ?thesis
    by (simp add: get_str_def)
qed

section \<open>The section table\<close>

lemma load_sects_Cons:
  "load_sects img (idx # idxs) addr acc =
     (case load_sect img idx addr of
        Inl e \<Rightarrow> Inl e
      | Inr s \<Rightarrow> load_sects img idxs (addr + SECT_ENT_SIZE) (acc @ [s]))"
  by (simp add: load_sect_def split: sum.splits)

declare load_sects.simps(2) [simp del]

lemma load_sects_Inr:
  "load_sects img idxs addr acc = Inr sects \<longleftrightarrow>
     (\<exists>ss. sects = acc @ ss \<and> length ss = length idxs \<and>
        (\<forall>k < length idxs. load_sect img (idxs ! k) (addr + SECT_ENT_SIZE * int k) = Inr (ss ! k)))"
proof (induction idxs arbitrary: addr acc)
  case Nil
  then show ?case by auto
next
  case (Cons idx idxs)
  show ?case
  proof (cases "load_sect img idx addr")
    case (Inl e)
    have "\<not> (\<forall>k < length (idx # idxs).
        load_sect img ((idx # idxs) ! k) (addr + SECT_ENT_SIZE * int k) = Inr (ss ! k))" for ss
    proof
      assume "\<forall>k < length (idx # idxs).
        load_sect img ((idx # idxs) ! k) (addr + SECT_ENT_SIZE * int k) = Inr (ss ! k)"
      from this [rule_format, of 0] Inl show False by simp
    qed
    with Inl show ?thesis
      by (simp add: load_sects_Cons)
  next
    case (Inr s)
    have "load_sects img (idx # idxs) addr acc = Inr sects \<longleftrightarrow>
        (\<exists>ss. sects = (acc @ [s]) @ ss \<and> length ss = length idxs \<and>
          (\<forall>k < length idxs.
             load_sect img (idxs ! k) (addr + SECT_ENT_SIZE + SECT_ENT_SIZE * int k) = Inr (ss ! k)))"
      using Cons.IH [of "addr + SECT_ENT_SIZE" "acc @ [s]"] Inr by (simp add: load_sects_Cons)
    also have "\<dots> \<longleftrightarrow>
        (\<exists>ss. sects = acc @ ss \<and> length ss = length (idx # idxs) \<and>
          (\<forall>k < length (idx # idxs).
             load_sect img ((idx # idxs) ! k) (addr + SECT_ENT_SIZE * int k) = Inr (ss ! k)))"
      (is "?L \<longleftrightarrow> ?R")
    proof
      assume ?L
      then obtain ss where ss: "sects = (acc @ [s]) @ ss" "length ss = length idxs"
        "\<forall>k < length idxs.
           load_sect img (idxs ! k) (addr + SECT_ENT_SIZE + SECT_ENT_SIZE * int k) = Inr (ss ! k)"
        by blast
      have "\<forall>k < length (idx # idxs).
          load_sect img ((idx # idxs) ! k) (addr + SECT_ENT_SIZE * int k) = Inr ((s # ss) ! k)"
      proof (intro allI impI)
        fix k assume "k < length (idx # idxs)"
        then show "load_sect img ((idx # idxs) ! k) (addr + SECT_ENT_SIZE * int k) = Inr ((s # ss) ! k)"
          using ss(3) Inr by (cases k) (simp_all add: algebra_simps)
      qed
      with ss(1,2) show ?R
        by (intro exI [of _ "s # ss"]) simp
    next
      assume ?R
      then obtain ss where ss: "sects = acc @ ss" "length ss = length (idx # idxs)"
        "\<forall>k < length (idx # idxs).
           load_sect img ((idx # idxs) ! k) (addr + SECT_ENT_SIZE * int k) = Inr (ss ! k)"
        by blast
      from ss(2) obtain s' ss' where c: "ss = s' # ss'"
        by (cases ss) simp_all
      from ss(3) [rule_format, of 0] c Inr have "s' = s" by simp
      have "\<forall>k < length idxs.
           load_sect img (idxs ! k) (addr + SECT_ENT_SIZE + SECT_ENT_SIZE * int k) = Inr (ss' ! k)"
      proof (intro allI impI)
        fix k assume "k < length idxs"
        then show "load_sect img (idxs ! k) (addr + SECT_ENT_SIZE + SECT_ENT_SIZE * int k) = Inr (ss' ! k)"
          using ss(3) [rule_format, of "Suc k"] c by (simp add: algebra_simps)
      qed
      with ss(1,2) c \<open>s' = s\<close> show ?L
        by (intro exI [of _ ss']) simp
    qed
    finally show ?thesis .
  qed
qed

lemma length_upto_0: "length [0 .. n - 1] = nat n"
  by simp

lemma nth_upto_0: "k < nat n \<Longrightarrow> [0 .. n - 1] ! k = int k"
  by simp

lemma load_sect_tab_Inr:
  "load_sect_tab img = Inr tab \<longleftrightarrow>
     (\<exists>sects. length sects = nat (i_nsects img) \<and>
        (\<forall>k < nat (i_nsects img).
           load_sect img (int k) (HDR_ENT_SIZE + SECT_ENT_SIZE * int k) = Inr (sects ! k)) \<and>
        CoffSectionTable_load sects = Inr tab)"
proof -
  have "load_sect_tab img = Inr tab \<longleftrightarrow>
      (\<exists>sects. load_sects img [0 .. i_nsects img - 1] HDR_ENT_SIZE [] = Inr sects \<and>
         CoffSectionTable_load sects = Inr tab)"
    by (simp add: load_sect_tab_def split: sum.splits)
  also have "\<dots> \<longleftrightarrow>
     (\<exists>sects. length sects = nat (i_nsects img) \<and>
        (\<forall>k < nat (i_nsects img).
           load_sect img (int k) (HDR_ENT_SIZE + SECT_ENT_SIZE * int k) = Inr (sects ! k)) \<and>
        CoffSectionTable_load sects = Inr tab)"
    by (simp add: load_sects_Inr)
  finally show ?thesis .
qed

lemma is_allocated_bits: "is_allocated flags \<longleftrightarrow> bit flags 5 \<or> bit flags 6 \<or> bit flags 7"
proof -
  have m: "ALLOC_MASK = push_bit 5 (mask 3)"
    by (simp add: ALLOC_MASK_def TEXT_def DATA_def BSS_def mask_eq_exp_minus_1 push_bit_eq_mult)
  have "(flags AND ALLOC_MASK) \<noteq> 0 \<longleftrightarrow> (\<exists>n. bit (flags AND ALLOC_MASK) n)"
    by (auto simp add: bit_eq_iff)
  also have "\<dots> \<longleftrightarrow> (\<exists>n. bit flags n \<and> 5 \<le> n \<and> n < 8)"
    unfolding m by (auto simp add: bit_and_iff bit_push_bit_iff bit_mask_iff)
  also have "\<dots> \<longleftrightarrow> bit flags 5 \<or> bit flags 6 \<or> bit flags 7"
  proof
    assume "\<exists>n. bit flags n \<and> 5 \<le> n \<and> n < 8"
    then obtain n where n: "bit flags n" "5 \<le> n" "n < 8" by blast
    then have "n = 5 \<or> n = 6 \<or> n = 7" by arith
    with n(1) show "bit flags 5 \<or> bit flags 6 \<or> bit flags 7" by auto
  next
    assume "bit flags 5 \<or> bit flags 6 \<or> bit flags 7"
    then show "\<exists>n. bit flags n \<and> 5 \<le> n \<and> n < 8" by force
  qed
  finally show ?thesis by (simp add: is_allocated_def)
qed

lemma CoffSection_load_Inr:
  "CoffSection_load name idx ent data blen = Inr s \<longleftrightarrow>
     (\<exists>nm. name = Some nm \<and>
        ent ! 5 + (if is_allocated (ent ! 10) then ent ! 4 * blen else ent ! 4) \<le> int (length data) \<and>
        s = \<lparr>s_name = nm, s_idx = idx, s_paddr = ent ! 2, s_vaddr = ent ! 3, s_flags = ent ! 10,
              s_daddr = ent ! 5,
              s_dlen = (if is_allocated (ent ! 10) then ent ! 4 * blen else ent ! 4),
              s_data = data\<rparr>)"
  by (auto simp add: CoffSection_load_def Let_def split: option.splits)

lemma CoffSection_load_errors:
  "(CoffSection_load name idx ent data blen = Inl e \<longleftrightarrow>
      (name = None \<and> e = SectionNoName idx) \<or>
      (name \<noteq> None \<and> e = SectionBadData idx \<and>
       ent ! 5 + (if is_allocated (ent ! 10) then ent ! 4 * blen else ent ! 4) > int (length data)))"
  by (auto simp add: CoffSection_load_def Let_def split: option.splits)

lemma get_ent_name_cache [simp]:
  "get_ent_name (img\<lparr>i_sectab := c\<rparr>) data addr has_str offs = get_ent_name img data addr has_str offs"
  by (simp add: get_ent_name_def)

lemma load_sect_cache [simp]: "load_sect (img\<lparr>i_sectab := c\<rparr>) idx addr = load_sect img idx addr"
  by (simp add: load_sect_def cong: sum.case_cong)

lemma load_sects_cache [simp]:
  "load_sects (img\<lparr>i_sectab := c\<rparr>) idxs addr acc = load_sects img idxs addr acc"
  by (induction idxs arbitrary: addr acc) (simp_all add: load_sects_Cons cong: sum.case_cong)

lemma load_sect_tab_cache [simp]: "load_sect_tab (img\<lparr>i_sectab := c\<rparr>) = load_sect_tab img"
  by (simp add: load_sect_tab_def)

lemma CoffImage_load_Inr:
  assumes "CoffImage_load data = Inr img"
  shows "50 \<le> length data" and "hdr data ! 8 = 0x0108" and "hdr data ! 7 \<noteq> 0"
    and "50 + hdr data ! 1 * 48 \<le> int (length data)"
    and "50 + hdr data ! 1 * 48 \<le> hdr data ! 3"
    and "hdr data ! 3 + hdr data ! 4 * 18 < int (length data)"
    and "img = \<lparr>i_tid = hdr data ! 7, i_entry = hdr data ! 13, i_nsects = hdr data ! 1,
                 i_strtab_addr = hdr data ! 3 + hdr data ! 4 * 18,
                 i_blen = (if hdr data ! 7 = 0x9D \<or> hdr data ! 7 = 0x98 then 2 else 1),
                 i_data = data, i_sectab = None\<rparr>"
  using assms by (auto simp add: CoffImage_load_unfold split: if_splits)

text \<open>What every image a program holds satisfies.\<close>

lemma constructed_inv:
  assumes "constructed data img"
  shows "\<exists>img0. CoffImage_load data = Inr img0 \<and> img = img0\<lparr>i_sectab := i_sectab img\<rparr> \<and>
           (\<forall>t. i_sectab img = Some t \<longrightarrow> load_sect_tab img0 = Inr t)"
  using assms
proof (induction rule: constructed.induct)
  case (init data img)
  then show ?case
    using CoffImage_load_Inr(7) [OF init] by (intro exI [of _ img]) simp
next
  case (access data img t img')
  then obtain img0 where i0: "CoffImage_load data = Inr img0" "img = img0\<lparr>i_sectab := i_sectab img\<rparr>"
    "\<forall>t. i_sectab img = Some t \<longrightarrow> load_sect_tab img0 = Inr t"
    by blast
  have lt: "load_sect_tab img = load_sect_tab img0"
    by (subst i0(2)) simp
  show ?case
  proof (cases "i_sectab img")
    case None
    with access.hyps(2) lt have "load_sect_tab img0 = Inr t" "img' = img\<lparr>i_sectab := Some t\<rparr>"
      by (auto simp add: sectab_def split: sum.splits)
    with i0 show ?thesis
      by (intro exI [of _ img0]) (metis CoffImage.select_convs(7) CoffImage.surjective CoffImage.update_convs(7) option.inject)
  next
    case (Some t')
    with access.hyps(2) have "img' = img" by (simp add: sectab_def)
    with i0 show ?thesis by blast
  qed
qed

lemma sectab_constructed:
  assumes "constructed data img" and "sectab img = Inr (tab, img')"
  shows "\<exists>img0. CoffImage_load data = Inr img0 \<and> load_sect_tab img0 = Inr tab \<and>
           img' = img0\<lparr>i_sectab := Some tab\<rparr>"
proof -
  from constructed_inv [OF assms(1)] obtain img0 where
    i0: "CoffImage_load data = Inr img0" "img = img0\<lparr>i_sectab := i_sectab img\<rparr>"
    "\<forall>t. i_sectab img = Some t \<longrightarrow> load_sect_tab img0 = Inr t"
    by blast
  have lt: "load_sect_tab img = load_sect_tab img0"
    by (subst i0(2)) simp
  show ?thesis
  proof (cases "i_sectab img")
    case None
    with assms(2) lt have "load_sect_tab img0 = Inr tab" "img' = img\<lparr>i_sectab := Some tab\<rparr>"
      by (auto simp add: sectab_def split: sum.splits)
    moreover from this(2) i0(2) have "img' = img0\<lparr>i_sectab := Some tab\<rparr>"
      by (metis CoffImage.update_convs(7) CoffImage.surjective)
    ultimately show ?thesis using i0(1) by blast
  next
    case (Some t')
    with assms(2) have "img' = img" "t' = tab" by (simp_all add: sectab_def)
    with i0 Some show ?thesis by (intro exI [of _ img0]) simp
  qed
qed

lemma ent_unpack:
  assumes "50 + 48 * int k + 48 \<le> int (length data)"
  shows "struct_unpack ent_fmt (py_slice data (50 + 48 * int k) (50 + 48 * int k + 48))
           = Inr (sect_ent data k)"
proof -
  have "length (py_slice data (50 + 48 * int k) (50 + 48 * int k + 48)) = 48"
    using assms by (subst length_py_slice) simp_all
  then show ?thesis
    by (simp add: struct_unpack_def sect_ent_def sizes ent_fmt_def)
qed



lemma load_sect_constructed:
  assumes img: "CoffImage_load data = Inr img" and k: "k < nat (i_nsects img)"
    and s: "load_sect img (int k) (HDR_ENT_SIZE + SECT_ENT_SIZE * int k) = Inr s"
  shows "\<exists>nm. get_ent_name img data (50 + 48 * int k) (sect_ent data k ! 0 = 0) (sect_ent data k ! 1)
                 = Inr (Some nm) \<and>
           s = \<lparr>s_name = nm, s_idx = int k, s_paddr = sect_ent data k ! 2,
                 s_vaddr = sect_ent data k ! 3, s_flags = sect_ent data k ! 10,
                 s_daddr = sect_ent data k ! 5,
                 s_dlen = (if is_allocated (sect_ent data k ! 10)
                           then sect_ent data k ! 4 * i_blen img else sect_ent data k ! 4),
                 s_data = data\<rparr>"
    and "s_daddr s + s_dlen s \<le> int (length data)"
proof -
  note f = CoffImage_load_Inr [OF img]
  have d: "i_data img = data" and n: "i_nsects img = hdr data ! 1"
    by (subst f(7), simp)+
  from k n have "int k + 1 \<le> hdr data ! 1" by linarith
  then have "48 * (int k + 1) \<le> hdr data ! 1 * 48" by simp
  with f(4) have b: "50 + 48 * int k + 48 \<le> int (length data)" by (simp add: algebra_simps)
  from s have s': "(case get_ent_name img data (50 + 48 * int k) (sect_ent data k ! 0 = 0)
                            (sect_ent data k ! 1) of
                      Inl e \<Rightarrow> Inl e
                    | Inr name \<Rightarrow> CoffSection_load name (int k) (sect_ent data k) data (i_blen img))
                   = Inr s"
    using ent_unpack [OF b] by (simp add: load_sect_def d sizes cong: sum.case_cong)
  then obtain name where nm: "get_ent_name img data (50 + 48 * int k) (sect_ent data k ! 0 = 0)
                            (sect_ent data k ! 1) = Inr name"
    and cs: "CoffSection_load name (int k) (sect_ent data k) data (i_blen img) = Inr s"
    by (auto split: sum.splits)
  from cs [unfolded CoffSection_load_Inr] nm
  show "\<exists>nm. get_ent_name img data (50 + 48 * int k) (sect_ent data k ! 0 = 0) (sect_ent data k ! 1)
                 = Inr (Some nm) \<and>
           s = \<lparr>s_name = nm, s_idx = int k, s_paddr = sect_ent data k ! 2,
                 s_vaddr = sect_ent data k ! 3, s_flags = sect_ent data k ! 10,
                 s_daddr = sect_ent data k ! 5,
                 s_dlen = (if is_allocated (sect_ent data k ! 10)
                           then sect_ent data k ! 4 * i_blen img else sect_ent data k ! 4),
                 s_data = data\<rparr>"
    by auto
  from cs [unfolded CoffSection_load_Inr]
  show "s_daddr s + s_dlen s \<le> int (length data)"
    by auto
qed

lemma tab_insert_all_Inr:
  "tab_insert_all sects tab = Inr tab' \<longleftrightarrow>
     distinct (map s_name sects) \<and> (\<forall>s \<in> set sects. tab (s_name s) = None) \<and>
     tab' = tab ++ map_of (map (\<lambda>s. (s_name s, s)) sects)"
proof (induction sects arbitrary: tab)
  case Nil
  then show ?case by auto
next
  case (Cons s sects)
  show ?case
  proof (cases "tab (s_name s)")
    case (Some a)
    then show ?thesis by simp
  next
    case None
    have e: "tab(s_name s \<mapsto> s) ++ map_of (map (\<lambda>s. (s_name s, s)) sects)
          = tab ++ map_of (map (\<lambda>s. (s_name s, s)) (s # sects))"
      if "s_name s \<notin> s_name ` set sects"
    proof -
      from that have "s_name s \<notin> dom (map_of (map (\<lambda>s. (s_name s, s)) sects))"
        by (simp add: dom_map_of_conv_image_fst image_image)
      then show ?thesis
        by (simp add: map_add_upd_left)
    qed
    have step: "tab_insert_all (s # sects) tab = tab_insert_all sects (tab(s_name s \<mapsto> s))"
      using None by simp
    have "tab_insert_all (s # sects) tab = Inr tab' \<longleftrightarrow>
        distinct (map s_name sects) \<and> (\<forall>s' \<in> set sects. (tab(s_name s \<mapsto> s)) (s_name s') = None) \<and>
        tab' = tab(s_name s \<mapsto> s) ++ map_of (map (\<lambda>s. (s_name s, s)) sects)"
      unfolding step by (rule Cons.IH)
    also have "\<dots> \<longleftrightarrow> distinct (map s_name (s # sects)) \<and>
        (\<forall>s' \<in> set (s # sects). tab (s_name s') = None) \<and>
        tab' = tab ++ map_of (map (\<lambda>s. (s_name s, s)) (s # sects))"
    proof -
      have a: "(\<forall>s' \<in> set sects. (tab(s_name s \<mapsto> s)) (s_name s') = None) \<longleftrightarrow>
          s_name s \<notin> s_name ` set sects \<and> (\<forall>s' \<in> set sects. tab (s_name s') = None)"
      proof -
        have "(tab(s_name s \<mapsto> s)) n = None \<longleftrightarrow> n \<noteq> s_name s \<and> tab n = None" for n
          by simp
        then show ?thesis by (auto simp add: image_iff)
      qed
      have b: "distinct (map s_name (s # sects)) \<longleftrightarrow>
          s_name s \<notin> s_name ` set sects \<and> distinct (map s_name sects)"
        by simp
      have c: "(\<forall>s' \<in> set (s # sects). tab (s_name s') = None) \<longleftrightarrow>
          (\<forall>s' \<in> set sects. tab (s_name s') = None)"
        using None by simp
      show ?thesis
      proof (cases "s_name s \<in> s_name ` set sects")
        case True
        then show ?thesis unfolding a b c by blast
      next
        case False
        show ?thesis unfolding a b c e [OF False] using False by blast
      qed
    qed
    finally show ?thesis .
  qed
qed

lemma tab_insert_all_Inl:
  "tab_insert_all sects tab = Inl e \<Longrightarrow>
     \<exists>i < length sects. e = DuplicateSection (s_name (sects ! i)) \<and>
        (tab (s_name (sects ! i)) \<noteq> None \<or> (\<exists>j < i. s_name (sects ! j) = s_name (sects ! i)))"
proof (induction sects arbitrary: tab)
  case Nil
  then show ?case by simp
next
  case (Cons s sects)
  show ?case
  proof (cases "tab (s_name s)")
    case (Some a)
    with Cons.prems show ?thesis
      by (intro exI [of _ 0]) simp
  next
    case None
    with Cons.prems have "tab_insert_all sects (tab(s_name s \<mapsto> s)) = Inl e" by simp
    from Cons.IH [OF this] obtain i where i: "i < length sects"
      "e = DuplicateSection (s_name (sects ! i))"
      "(tab(s_name s \<mapsto> s)) (s_name (sects ! i)) \<noteq> None
         \<or> (\<exists>j < i. s_name (sects ! j) = s_name (sects ! i))"
      by blast
    from i(3) have "tab (s_name ((s # sects) ! Suc i)) \<noteq> None
        \<or> (\<exists>j < Suc i. s_name ((s # sects) ! j) = s_name ((s # sects) ! Suc i))"
    proof
      assume a: "(tab(s_name s \<mapsto> s)) (s_name (sects ! i)) \<noteq> None"
      show ?thesis
      proof (cases "s_name (sects ! i) = s_name s")
        case True
        then have "s_name ((s # sects) ! 0) = s_name ((s # sects) ! Suc i)" by simp
        then show ?thesis by blast
      next
        case False
        with a show ?thesis by simp
      qed
    next
      assume "\<exists>j < i. s_name (sects ! j) = s_name (sects ! i)"
      then obtain j where "j < i" "s_name (sects ! j) = s_name (sects ! i)" by blast
      then have "Suc j < Suc i" "s_name ((s # sects) ! Suc j) = s_name ((s # sects) ! Suc i)"
        by simp_all
      then show ?thesis by blast
    qed
    with i(1,2) show ?thesis
      by (intro exI [of _ "Suc i"]) simp
  qed
qed

lemma CoffSectionTable_load_Inr:
  "CoffSectionTable_load sects = Inr tab \<longleftrightarrow>
     distinct (map s_name sects) \<and>
     tab = \<lparr>t_sects = sects, t_tab = map_of (map (\<lambda>s. (s_name s, s)) sects)\<rparr>"
proof (cases "tab_insert_all sects Map.empty")
  case (Inl e)
  have "\<not> distinct (map s_name sects)"
  proof
    assume "distinct (map s_name sects)"
    then have "tab_insert_all sects Map.empty = Inr (map_of (map (\<lambda>s. (s_name s, s)) sects))"
      by (simp add: tab_insert_all_Inr)
    with Inl show False by simp
  qed
  with Inl show ?thesis
    by (simp add: CoffSectionTable_load_def)
next
  case (Inr tab')
  then have "distinct (map s_name sects)" "tab' = map_of (map (\<lambda>s. (s_name s, s)) sects)"
    by (simp_all add: tab_insert_all_Inr)
  moreover have "CoffSectionTable_load sects = Inr \<lparr>t_sects = sects, t_tab = tab'\<rparr>"
    using Inr by (simp add: CoffSectionTable_load_def)
  ultimately show ?thesis by auto
qed

lemma CoffSectionTable_load_Inl:
  assumes "CoffSectionTable_load sects = Inl e"
  shows "\<exists>i j. j < i \<and> i < length sects \<and> s_name (sects ! j) = s_name (sects ! i) \<and>
           e = DuplicateSection (s_name (sects ! i))"
proof -
  from assms have "tab_insert_all sects Map.empty = Inl e"
    by (simp add: CoffSectionTable_load_def split: sum.splits)
  from tab_insert_all_Inl [OF this] show ?thesis by auto
qed

lemma CoffSectionTable_load_dup:
  assumes "\<not> distinct (map s_name sects)"
  shows "\<exists>i j. j < i \<and> i < length sects \<and> s_name (sects ! j) = s_name (sects ! i) \<and>
           CoffSectionTable_load sects = Inl (DuplicateSection (s_name (sects ! i)))"
proof (cases "CoffSectionTable_load sects")
  case (Inl e)
  from CoffSectionTable_load_Inl [OF Inl] Inl show ?thesis by auto
next
  case (Inr tab)
  with assms show ?thesis by (simp add: CoffSectionTable_load_Inr)
qed

lemma constructed_sects:
  assumes "constructed data img" and "sectab img = Inr (tab, img')"
  obtains img0 where "CoffImage_load data = Inr img0"
    and "img = img0\<lparr>i_sectab := i_sectab img\<rparr>"
    and "length (t_sects tab) = nat (i_nsects img0)"
    and "\<And>k. k < nat (i_nsects img0) \<Longrightarrow>
           load_sect img0 (int k) (HDR_ENT_SIZE + SECT_ENT_SIZE * int k) = Inr (t_sects tab ! k)"
    and "distinct (map s_name (t_sects tab))"
    and "t_tab tab = map_of (map (\<lambda>s. (s_name s, s)) (t_sects tab))"
proof -
  from sectab_constructed [OF assms] obtain img0 where
    i0: "CoffImage_load data = Inr img0" "load_sect_tab img0 = Inr tab"
    by blast
  from constructed_inv [OF assms(1)] i0(1) have e: "img = img0\<lparr>i_sectab := i_sectab img\<rparr>"
    by auto
  from i0(2) [unfolded load_sect_tab_Inr] obtain sects where
    s: "length sects = nat (i_nsects img0)"
    "\<forall>k < nat (i_nsects img0).
       load_sect img0 (int k) (HDR_ENT_SIZE + SECT_ENT_SIZE * int k) = Inr (sects ! k)"
    "CoffSectionTable_load sects = Inr tab"
    by blast
  from s(3) have t: "distinct (map s_name sects)" "t_sects tab = sects"
    "t_tab tab = map_of (map (\<lambda>s. (s_name s, s)) sects)"
    by (simp_all add: CoffSectionTable_load_Inr)
  show thesis
    using that [OF i0(1) e] s(1,2) t by simp
qed

text \<open>
  Claim C4. A constructed section whose flags have one of the bits 0x20, 0x40, 0x80
  has the data length \<open>raw length * multiplier\<close>, and any other section has the raw
  length itself. The multiplier an image passes is 2 for the target ids 0x9D and 0x98
  and 1 for every other id. The last part says it of the \<open>k\<close>-th section of an
  image's table and the \<open>k\<close>-th entry of the file.
\<close>

theorem section_dlen:
  "(CoffSection_load name idx ent buf blen = Inr s \<longrightarrow>
      s_dlen s = (if bit (ent ! 10) 5 \<or> bit (ent ! 10) 6 \<or> bit (ent ! 10) 7
                  then ent ! 4 * blen else ent ! 4)) \<and>
   (constructed data img \<longrightarrow>
      i_tid img = hdr data ! 7 \<and>
      i_blen img = (if i_tid img = 0x9D \<or> i_tid img = 0x98 then 2 else 1)) \<and>
   (constructed data img \<and> sectab img = Inr (tab, img') \<and> k < length (tab_iter tab) \<longrightarrow>
      (let e = sect_ent data k; sect = tab_iter tab ! k in
         s_flags sect = e ! 10 \<and>
         s_dlen sect = (if bit (e ! 10) 5 \<or> bit (e ! 10) 6 \<or> bit (e ! 10) 7
                        then e ! 4 * (if i_tid img = 0x9D \<or> i_tid img = 0x98 then 2 else 1)
                        else e ! 4)))"
proof (intro conjI impI)
  assume "CoffSection_load name idx ent buf blen = Inr s"
  then show "s_dlen s = (if bit (ent ! 10) 5 \<or> bit (ent ! 10) 6 \<or> bit (ent ! 10) 7
                  then ent ! 4 * blen else ent ! 4)"
    unfolding CoffSection_load_Inr is_allocated_bits by auto
next
  assume c: "constructed data img"
  from constructed_inv [OF c] obtain img0 where
    i0: "CoffImage_load data = Inr img0" "img = img0\<lparr>i_sectab := i_sectab img\<rparr>"
    by blast
  have "i_tid img = i_tid img0" "i_blen img = i_blen img0"
    by (subst i0(2), simp)+
  moreover have "i_tid img0 = hdr data ! 7"
    "i_blen img0 = (if hdr data ! 7 = 0x9D \<or> hdr data ! 7 = 0x98 then 2 else 1)"
    by (subst CoffImage_load_Inr(7) [OF i0(1)], simp)+
  ultimately show "i_tid img = hdr data ! 7"
    and "i_blen img = (if i_tid img = 0x9D \<or> i_tid img = 0x98 then 2 else 1)"
    by simp_all
next
  assume a: "constructed data img \<and> sectab img = Inr (tab, img') \<and> k < length (tab_iter tab)"
  then have c: "constructed data img" and st: "sectab img = Inr (tab, img')"
    and k: "k < length (t_sects tab)"
    by (simp_all add: tab_iter_def)
  from constructed_sects [OF c st] obtain img0 where
    i0: "CoffImage_load data = Inr img0" "img = img0\<lparr>i_sectab := i_sectab img\<rparr>"
    "length (t_sects tab) = nat (i_nsects img0)"
    "\<And>k. k < nat (i_nsects img0) \<Longrightarrow>
           load_sect img0 (int k) (HDR_ENT_SIZE + SECT_ENT_SIZE * int k) = Inr (t_sects tab ! k)"
    by blast
  from k i0(3) have k': "k < nat (i_nsects img0)" by simp
  have t: "i_tid img = i_tid img0"
    by (subst i0(2)) simp
  have b: "i_tid img0 = hdr data ! 7"
    "i_blen img0 = (if hdr data ! 7 = 0x9D \<or> hdr data ! 7 = 0x98 then 2 else 1)"
    by (subst CoffImage_load_Inr(7) [OF i0(1)], simp)+
  from load_sect_constructed(1) [OF i0(1) k' i0(4) [OF k']]
  have "s_flags (t_sects tab ! k) = sect_ent data k ! 10"
    "s_dlen (t_sects tab ! k) = (if is_allocated (sect_ent data k ! 10)
        then sect_ent data k ! 4 * i_blen img0 else sect_ent data k ! 4)"
    by auto
  then show "let e = sect_ent data k; sect = tab_iter tab ! k in
         s_flags sect = e ! 10 \<and>
         s_dlen sect = (if bit (e ! 10) 5 \<or> bit (e ! 10) 6 \<or> bit (e ! 10) 7
                        then e ! 4 * (if i_tid img = 0x9D \<or> i_tid img = 0x98 then 2 else 1)
                        else e ! 4)"
    unfolding is_allocated_bits Let_def tab_iter_def t b by simp
qed

lemma length_img_two: "length img_two = 154"
  by (simp add: img_two_def)

lemma hdr_img_two:
  "hdr img_two = [0xC2, 2, 0, 150, 0, 28, 0, 0x9D, 0x108, 0, 0, 0, 0, 0x1000, 0, 0]"
  by code_simp

lemma img_two_load: "CoffImage_load img_two = Inr img_two_obj"
  by (simp add: CoffImage_load_unfold hdr_img_two length_img_two img_two_obj_def)

lemma img_two_ents:
  "sect_ent img_two 0 = [0x612E, 0, 0x10, 0x12, 1, 146, 0, 0, 0, 0, 0x20, 0]"
  "sect_ent img_two (Suc 0) = [0, 1, 0, 0, 2, 148, 0, 0, 0, 0, 0, 0]"
  by code_simp+

lemma img_two_sectab:
  "\<exists>tab img'. sectab img_two_obj = Inr (tab, img') \<and> length (tab_iter tab) = 2"
proof -
  have "map_sum id (\<lambda>(t, i). length (tab_iter t)) (sectab img_two_obj) = Inr 2"
    by code_simp
  then show ?thesis
    by (cases "sectab img_two_obj") auto
qed

theorem section_dlen_witness:
  "constructed img_two img_two_obj \<and>
   (\<exists>tab img'. sectab img_two_obj = Inr (tab, img') \<and> length (tab_iter tab) = 2 \<and>
      i_tid img_two_obj = 0x9D \<and> i_blen img_two_obj = 2 \<and>
      bit (sect_ent img_two 0 ! 10) 5 \<and> sect_ent img_two 0 ! 4 = 1 \<and>
      s_dlen (tab_iter tab ! 0) = 2 \<and>
      \<not> bit (sect_ent img_two 1 ! 10) 5 \<and> \<not> bit (sect_ent img_two 1 ! 10) 6 \<and>
      \<not> bit (sect_ent img_two 1 ! 10) 7 \<and> sect_ent img_two 1 ! 4 = 2 \<and>
      s_dlen (tab_iter tab ! 1) = 2)"
proof -
  have c: "constructed img_two img_two_obj"
    by (rule constructed.init) (rule img_two_load)
  from img_two_sectab obtain tab img' where
    t: "sectab img_two_obj = Inr (tab, img')" "length (tab_iter tab) = 2"
    by blast
  have b: "bit (32 :: int) 5" "\<not> bit (0 :: int) 5"
    by simp_all
  have tid: "i_tid img_two_obj = 0x9D"
    by (simp add: img_two_obj_def)
  from section_dlen [of undefined undefined undefined undefined undefined undefined
      img_two img_two_obj tab img' 0] c t tid
  have "s_dlen (tab_iter tab ! 0) = 2" "i_blen img_two_obj = 2"
    by (simp_all add: img_two_ents Let_def)
  moreover
  from section_dlen [of undefined undefined undefined undefined undefined undefined
      img_two img_two_obj tab img' 1] c t tid
  have "s_dlen (tab_iter tab ! 1) = 2"
    by (simp add: img_two_ents Let_def)
  ultimately show ?thesis
    using c t tid by (auto simp add: img_two_ents)
qed

text \<open>
  Claim C6. The table of an image holds exactly \<open>section_count\<close> sections; the \<open>k\<close>-th
  one has index \<open>k\<close> and the addresses, flags and name of the \<open>k\<close>-th entry of the
  file; and no two of them share a name. A list of sections in which two share a name
  makes \<^verbatim>\<open>CoffSectionTable\<close> fail with the duplicate-name error of a name that occurs
  twice.
\<close>

theorem sectab_iter_spec:
  "(constructed data img \<and> sectab img = Inr (tab, img') \<longrightarrow>
      i_nsects img = hdr data ! 1 \<and>
      tab_len tab = i_nsects img \<and>
      length (tab_iter tab) = nat (i_nsects img) \<and>
      (\<forall>k < length (tab_iter tab).
         s_idx (tab_iter tab ! k) = int k \<and>
         s_paddr (tab_iter tab ! k) = sect_ent data k ! 2 \<and>
         s_vaddr (tab_iter tab ! k) = sect_ent data k ! 3 \<and>
         s_daddr (tab_iter tab ! k) = sect_ent data k ! 5 \<and>
         s_flags (tab_iter tab ! k) = sect_ent data k ! 10 \<and>
         get_ent_name img data (50 + 48 * int k) (sect_ent data k ! 0 = 0) (sect_ent data k ! 1)
           = Inr (Some (s_name (tab_iter tab ! k)))) \<and>
      distinct (map s_name (tab_iter tab))) \<and>
   (\<not> distinct (map s_name sects) \<longrightarrow>
      (\<exists>i j. j < i \<and> i < length sects \<and> s_name (sects ! j) = s_name (sects ! i) \<and>
         CoffSectionTable_load sects = Inl (DuplicateSection (s_name (sects ! i)))))"
proof (intro conjI impI)
  assume a: "constructed data img \<and> sectab img = Inr (tab, img')"
  then have c: "constructed data img" and st: "sectab img = Inr (tab, img')"
    by simp_all
  from constructed_sects [OF c st] obtain img0 where
    i0: "CoffImage_load data = Inr img0" "img = img0\<lparr>i_sectab := i_sectab img\<rparr>"
    "length (t_sects tab) = nat (i_nsects img0)"
    "\<And>k. k < nat (i_nsects img0) \<Longrightarrow>
           load_sect img0 (int k) (HDR_ENT_SIZE + SECT_ENT_SIZE * int k) = Inr (t_sects tab ! k)"
    "distinct (map s_name (t_sects tab))"
    by blast
  have n: "i_nsects img = i_nsects img0"
    by (subst i0(2)) simp
  have n0: "i_nsects img0 = hdr data ! 1"
    by (subst CoffImage_load_Inr(7) [OF i0(1)]) simp
  have g: "get_ent_name img = get_ent_name img0"
    by (subst i0(2)) (simp add: fun_eq_iff)
  show "i_nsects img = hdr data ! 1"
    using n n0 by simp
  have "0 \<le> hdr data ! 1"
    by (simp add: hdr_nonneg)
  then show "tab_len tab = i_nsects img"
    using i0(3) n n0 by (simp add: tab_len_def)
  show "length (tab_iter tab) = nat (i_nsects img)"
    using i0(3) n by (simp add: tab_iter_def)
  show "distinct (map s_name (tab_iter tab))"
    using i0(5) by (simp add: tab_iter_def)
  show "\<forall>k < length (tab_iter tab).
         s_idx (tab_iter tab ! k) = int k \<and>
         s_paddr (tab_iter tab ! k) = sect_ent data k ! 2 \<and>
         s_vaddr (tab_iter tab ! k) = sect_ent data k ! 3 \<and>
         s_daddr (tab_iter tab ! k) = sect_ent data k ! 5 \<and>
         s_flags (tab_iter tab ! k) = sect_ent data k ! 10 \<and>
         get_ent_name img data (50 + 48 * int k) (sect_ent data k ! 0 = 0) (sect_ent data k ! 1)
           = Inr (Some (s_name (tab_iter tab ! k)))"
  proof (intro allI impI)
    fix k assume "k < length (tab_iter tab)"
    then have k: "k < nat (i_nsects img0)"
      using i0(3) by (simp add: tab_iter_def)
    from load_sect_constructed(1) [OF i0(1) k i0(4) [OF k]]
    show "s_idx (tab_iter tab ! k) = int k \<and>
         s_paddr (tab_iter tab ! k) = sect_ent data k ! 2 \<and>
         s_vaddr (tab_iter tab ! k) = sect_ent data k ! 3 \<and>
         s_daddr (tab_iter tab ! k) = sect_ent data k ! 5 \<and>
         s_flags (tab_iter tab ! k) = sect_ent data k ! 10 \<and>
         get_ent_name img data (50 + 48 * int k) (sect_ent data k ! 0 = 0) (sect_ent data k ! 1)
           = Inr (Some (s_name (tab_iter tab ! k)))"
      unfolding g tab_iter_def by auto
  qed
next
  assume "\<not> distinct (map s_name sects)"
  then show "\<exists>i j. j < i \<and> i < length sects \<and> s_name (sects ! j) = s_name (sects ! i) \<and>
         CoffSectionTable_load sects = Inl (DuplicateSection (s_name (sects ! i)))"
    by (rule CoffSectionTable_load_dup)
qed

text \<open>
  Claim C10. On a table of \<open>n\<close> sections, an integer key \<open>k\<close> with \<open>-n \<le> k < 0\<close> gives
  the section at position \<open>n + k\<close> and a key with \<open>0 \<le> k < n\<close> the one at position \<open>k\<close>;
  the lookup fails, with \<^verbatim>\<open>IndexError\<close>, exactly when \<open>k \<ge> n\<close> or \<open>k < -n\<close>. A name
  fails, with \<^verbatim>\<open>KeyError\<close>, exactly when no section bears it, and gives the section
  of that name otherwise.
\<close>

theorem tab_getitem_spec:
  assumes "CoffSectionTable_load sects = Inr tab"
  shows "tab_len tab = int (length sects) \<and>
    (\<forall>k. - tab_len tab \<le> k \<and> k < 0 \<longrightarrow>
       tab_getitem tab (IntKey k) = Inr (sects ! nat (tab_len tab + k))) \<and>
    (\<forall>k. 0 \<le> k \<and> k < tab_len tab \<longrightarrow> tab_getitem tab (IntKey k) = Inr (sects ! nat k)) \<and>
    (\<forall>k. tab_getitem tab (IntKey k) = Inl IndexError \<longleftrightarrow> k \<ge> tab_len tab \<or> k < - tab_len tab) \<and>
    (\<forall>k e. tab_getitem tab (IntKey k) = Inl e \<longrightarrow> e = IndexError) \<and>
    (\<forall>nm. tab_getitem tab (StrKey nm) = Inl KeyError \<longleftrightarrow> nm \<notin> s_name ` set sects) \<and>
    (\<forall>nm e. tab_getitem tab (StrKey nm) = Inl e \<longrightarrow> e = KeyError) \<and>
    (\<forall>nm s. tab_getitem tab (StrKey nm) = Inr s \<longleftrightarrow> s \<in> set sects \<and> s_name s = nm)"
proof -
  from assms have d: "distinct (map s_name sects)" and ts: "t_sects tab = sects"
    and tt: "t_tab tab = map_of (map (\<lambda>s. (s_name s, s)) sects)"
    by (simp_all add: CoffSectionTable_load_Inr)
  have m: "map_of (map (\<lambda>s. (s_name s, s)) sects) nm = Some s \<longleftrightarrow> s \<in> set sects \<and> s_name s = nm"
    for nm s
  proof -
    have "distinct (map fst (map (\<lambda>s. (s_name s, s)) sects))"
      using d by (simp add: comp_def)
    then have "map_of (map (\<lambda>s. (s_name s, s)) sects) nm = Some s
        \<longleftrightarrow> (nm, s) \<in> set (map (\<lambda>s. (s_name s, s)) sects)"
      by simp
    then show ?thesis by auto
  qed
  have mn: "map_of (map (\<lambda>s. (s_name s, s)) sects) nm = None \<longleftrightarrow> nm \<notin> s_name ` set sects" for nm
    by (simp add: map_of_eq_None_iff image_image)
  have 1: "tab_len tab = int (length sects)"
    by (simp add: tab_len_def ts)
  have 2: "\<forall>k. - tab_len tab \<le> k \<and> k < 0 \<longrightarrow>
       tab_getitem tab (IntKey k) = Inr (sects ! nat (tab_len tab + k))"
    by (simp add: tab_getitem_def list_getitem_def ts 1 Let_def add.commute)
  have 3: "\<forall>k. 0 \<le> k \<and> k < tab_len tab \<longrightarrow> tab_getitem tab (IntKey k) = Inr (sects ! nat k)"
    by (simp add: tab_getitem_def list_getitem_def ts 1 Let_def)
  have 4: "\<forall>k. tab_getitem tab (IntKey k) = Inl IndexError \<longleftrightarrow> k \<ge> tab_len tab \<or> k < - tab_len tab"
    by (auto simp add: tab_getitem_def list_getitem_def ts 1 Let_def)
  have 5: "\<forall>k e. tab_getitem tab (IntKey k) = Inl e \<longrightarrow> e = IndexError"
    by (auto simp add: tab_getitem_def list_getitem_def Let_def split: if_splits)
  have 6: "\<forall>nm. tab_getitem tab (StrKey nm) = Inl KeyError \<longleftrightarrow> nm \<notin> s_name ` set sects"
  proof
    fix nm
    show "tab_getitem tab (StrKey nm) = Inl KeyError \<longleftrightarrow> nm \<notin> s_name ` set sects"
      unfolding mn [symmetric] by (simp add: tab_getitem_def tt split: option.splits)
  qed
  have 7: "\<forall>nm e. tab_getitem tab (StrKey nm) = Inl e \<longrightarrow> e = KeyError"
    by (auto simp add: tab_getitem_def split: option.splits)
  have 8: "\<forall>nm s. tab_getitem tab (StrKey nm) = Inr s \<longleftrightarrow> s \<in> set sects \<and> s_name s = nm"
  proof (intro allI)
    fix nm s
    have "tab_getitem tab (StrKey nm) = Inr s \<longleftrightarrow> t_tab tab nm = Some s"
      by (simp add: tab_getitem_def split: option.splits)
    then show "tab_getitem tab (StrKey nm) = Inr s \<longleftrightarrow> s \<in> set sects \<and> s_name s = nm"
      unfolding tt m .
  qed
  from 1 2 3 4 5 6 7 8 show ?thesis by blast
qed

lemma img_two_load_sects:
  "load_sects img_two_obj [0 .. i_nsects img_two_obj - 1] HDR_ENT_SIZE [] = Inr [sect_a, sect_b]"
  by code_simp

lemma tab_two_load: "CoffSectionTable_load [sect_a, sect_b] = Inr tab_two"
  by (simp add: CoffSectionTable_load_def tab_two_def sect_a_def sect_b_def)

lemma img_two_sectab_eq:
  "sectab img_two_obj = Inr (tab_two, img_two_obj\<lparr>i_sectab := Some tab_two\<rparr>)"
proof -
  have "i_sectab img_two_obj = None"
    by (simp add: img_two_obj_def)
  then show ?thesis
    by (simp add: sectab_def load_sect_tab_def img_two_load_sects tab_two_load)
qed

lemma img_two_constructed: "constructed img_two img_two_obj"
  by (rule constructed.init) (rule img_two_load)

theorem sectab_iter_spec_witness:
  "constructed img_two img_two_obj \<and>
   sectab img_two_obj = Inr (tab_two, img_two_obj\<lparr>i_sectab := Some tab_two\<rparr>) \<and>
   hdr img_two ! 1 = 2 \<and> length (tab_iter tab_two) = 2 \<and>
   s_idx (tab_iter tab_two ! 0) = 0 \<and> s_idx (tab_iter tab_two ! 1) = 1 \<and>
   distinct (map s_name (tab_iter tab_two)) \<and>
   \<not> distinct (map s_name [sect_a, sect_b, sect_a]) \<and>
   CoffSectionTable_load [sect_a, sect_b, sect_a] = Inl (DuplicateSection (s_name sect_a))"
proof -
  note t = sectab_iter_spec [of img_two img_two_obj tab_two
      "img_two_obj\<lparr>i_sectab := Some tab_two\<rparr>" "[sect_a, sect_b, sect_a]"]
  have n: "s_name sect_a \<noteq> s_name sect_b"
    by (simp add: sect_a_def sect_b_def)
  have l: "length (tab_iter tab_two) = 2"
    using t img_two_constructed img_two_sectab_eq by (simp add: hdr_img_two)
  have i: "s_idx (tab_iter tab_two ! 0) = 0 \<and> s_idx (tab_iter tab_two ! 1) = 1"
    using t img_two_constructed img_two_sectab_eq l by simp
  have d: "distinct (map s_name (tab_iter tab_two))"
    using t img_two_constructed img_two_sectab_eq by simp
  have nd: "\<not> distinct (map s_name [sect_a, sect_b, sect_a])"
    by simp
  from t [THEN conjunct2, rule_format, OF nd] obtain i j where ij: "j < i"
    "i < length [sect_a, sect_b, sect_a]"
    "s_name ([sect_a, sect_b, sect_a] ! j) = s_name ([sect_a, sect_b, sect_a] ! i)"
    "CoffSectionTable_load [sect_a, sect_b, sect_a]
       = Inl (DuplicateSection (s_name ([sect_a, sect_b, sect_a] ! i)))"
    by blast
  from ij(1,2) have "i = 1 \<and> j = 0 \<or> i = 2 \<and> j = 0 \<or> i = 2 \<and> j = 1"
    by (simp add: numeral_eq_Suc) arith
  with ij(3,4) n have "CoffSectionTable_load [sect_a, sect_b, sect_a]
       = Inl (DuplicateSection (s_name sect_a))"
    by auto
  with l i d show ?thesis
    using img_two_constructed img_two_sectab_eq by (simp add: hdr_img_two)
qed

theorem tab_getitem_spec_witness:
  "CoffSectionTable_load [sect_a, sect_b] = Inr tab_two \<and> tab_len tab_two = 2 \<and>
   tab_getitem tab_two (IntKey (- 1)) = Inr sect_b \<and>
   tab_getitem tab_two (IntKey (- 2)) = Inr sect_a \<and>
   tab_getitem tab_two (IntKey 1) = Inr sect_b \<and>
   tab_getitem tab_two (IntKey 2) = Inl IndexError \<and>
   tab_getitem tab_two (IntKey (- 3)) = Inl IndexError \<and>
   tab_getitem tab_two (StrKey [0x2E, 0x63]) = Inl KeyError \<and>
   tab_getitem tab_two (StrKey (s_name sect_b)) = Inr sect_b"
proof -
  note t = tab_getitem_spec [OF tab_two_load]
  from t have l: "tab_len tab_two = 2" by simp
  have n: "[0x2E, 0x63] \<notin> s_name ` set [sect_a, sect_b]"
    by (simp add: sect_a_def sect_b_def)
  from t [THEN conjunct2, THEN conjunct1, rule_format, of "- 1"]
    t [THEN conjunct2, THEN conjunct1, rule_format, of "- 2"]
  have 1: "tab_getitem tab_two (IntKey (- 1)) = Inr sect_b"
    "tab_getitem tab_two (IntKey (- 2)) = Inr sect_a"
    by (simp_all add: l)
  from t have 2: "tab_getitem tab_two (IntKey 1) = Inr sect_b"
    "tab_getitem tab_two (IntKey 2) = Inl IndexError"
    "tab_getitem tab_two (IntKey (- 3)) = Inl IndexError"
    by (simp_all add: l)
  from t n have 3: "tab_getitem tab_two (StrKey [0x2E, 0x63]) = Inl KeyError"
    by blast
  from t have 4: "tab_getitem tab_two (StrKey (s_name sect_b)) = Inr sect_b"
    by simp
  from tab_two_load l 1 2 3 4 show ?thesis by simp
qed

section \<open>\<^verbatim>\<open>copy_sects\<close>\<close>













lemma sect_data_two: "sect_data sect_a = [0x11, 0x22]" "sect_data sect_b = [0x33, 0x44]"
  by code_simp+


text \<open>
  Claim C3 does not hold of the code: \<^verbatim>\<open>copy_sects\<close> never looks at the flags. In
  \<open>img_two\<close> the section \<^verbatim>\<open>.b\<close> has the flags 0, so it is not allocated, and its
  physical range \<open>[0, 2)\<close> fits the window of four bytes at address 0: its two bytes are
  copied into the destination.
\<close>

theorem copy_sects_not_allocated:
  "CoffImage_load img_two = Inr img_two_obj \<and>
   sectab img_two_obj = Inr (tab_two, img_two_obj\<lparr>i_sectab := Some tab_two\<rparr>) \<and>
   tab_iter tab_two = [sect_a, sect_b] \<and>
   \<not> is_allocated (s_flags sect_b) \<and>
   copy_sects img_two_obj 0 dst4 =
     Inr ([0x33, 0x44, 0xFF, 0xFF], img_two_obj\<lparr>i_sectab := Some tab_two\<rparr>)"
proof -
  have ts: "tab_iter tab_two = [sect_a, sect_b]"
    by (simp add: tab_iter_def tab_two_def)
  have fa: "s_paddr sect_a = 0x10" "s_vaddr sect_a = 0x12" "s_dlen sect_a = 2"
    and fb: "s_paddr sect_b = 0" "s_vaddr sect_b = 0" "s_dlen sect_b = 2" "s_flags sect_b = 0"
    by (simp_all add: sect_a_def sect_b_def)
  have "copy_sect 0 4 dst4 sect_a = dst4"
    by (simp add: copy_sect_def fa)
  moreover have "copy_sect 0 4 dst4 sect_b = [0x33, 0x44, 0xFF, 0xFF]"
    by (simp add: copy_sect_def fb sect_data_two py_setslice_def slice_bound_def dst4_def)
  ultimately have "copy_sects img_two_obj 0 dst4 =
     Inr ([0x33, 0x44, 0xFF, 0xFF], img_two_obj\<lparr>i_sectab := Some tab_two\<rparr>)"
    by (simp add: copy_sects_def img_two_sectab_eq ts) (simp add: dst4_def)
  then show ?thesis
    using img_two_load img_two_sectab_eq ts by (simp add: fb is_allocated_def)
qed

section \<open>The data of a section\<close>

lemma data_obj_bytes:
  assumes "buf_bytes st buf = s_data s" and "data_obj st buf s = (st', b)"
    and "case buf of Bytearray r \<Rightarrow> r < length st | Memoryview r off n \<Rightarrow> r < length st \<and> off + n \<le> length (st ! r)"
  shows "buf_bytes st' b = sect_data s"
proof (cases buf)
  case (Bytearray r)
  with assms show ?thesis
    by (auto simp add: data_obj_def sect_data_def nth_append)
next
  case (Memoryview r off n)
  let ?xs = "st ! r"
  let ?lo = "slice_bound n (s_daddr s)"
  let ?hi = "slice_bound n (s_daddr s + s_dlen s)"
  have le: "slice_bound n i \<le> n" for i
    by (auto simp add: slice_bound_def max_def)
  from assms(3) Memoryview have n: "off + n \<le> length ?xs" by simp
  from assms(1) Memoryview have d: "s_data s = take n (drop off ?xs)" by simp
  from n have l: "length (s_data s) = n" by (simp add: d)
  from assms(2) Memoryview have b: "b = Memoryview r (off + ?lo) (?hi - ?lo)" and st: "st' = st"
    by (auto simp add: data_obj_def Let_def)
  have "sect_data s = take (?hi - ?lo) (drop ?lo (take n (drop off ?xs)))"
    by (simp add: sect_data_def py_slice_def Let_def l) (simp add: d)
  also have "\<dots> = take (?hi - ?lo) (take (n - ?lo) (drop ?lo (drop off ?xs)))"
    by (simp add: drop_take)
  also have "\<dots> = take (?hi - ?lo) (drop (off + ?lo) ?xs)"
    using le [of "s_daddr s + s_dlen s"] by (simp add: min_def add.commute)
  finally show ?thesis
    by (simp add: b st)
qed

lemma data_obj_bytearray:
  assumes "r < length st" and "data_obj st (Bytearray r) s = (st', b)"
  shows "b = Bytearray (length st)" and "length st' = Suc (length st)"
    and "buf_bytes st' (Bytearray r) = buf_bytes st (Bytearray r)"
    and "buf_setitem st' b k v = Inr st'' \<Longrightarrow> buf_bytes st'' (Bytearray r) = buf_bytes st (Bytearray r)"
  using assms by (auto simp add: data_obj_def nth_append split: if_splits)

text \<open>
  Claim C5 does not hold of the code in its last part. The image built from the
  \<^verbatim>\<open>bytearray\<close> object 0 holding \<open>img_two\<close> hands that object to its sections, and
  \<^verbatim>\<open>data\<close> of the first section slices it: the result is the new object 1 with a copy
  of the two bytes. Writing through it leaves the buffer of the image as it was.
\<close>

theorem section_data_is_copy:
  "CoffImage_load (buf_bytes [img_two] (Bytearray 0)) = Inr img_two_obj \<and>
   sectab img_two_obj = Inr (tab_two, img_two_obj\<lparr>i_sectab := Some tab_two\<rparr>) \<and>
   tab_iter tab_two ! 0 = sect_a \<and>
   data_obj [img_two] (Bytearray 0) sect_a = ([img_two, [0x11, 0x22]], Bytearray 1) \<and>
   buf_setitem [img_two, [0x11, 0x22]] (Bytearray 1) 0 0x55 = Inr [img_two, [0x55, 0x22]] \<and>
   buf_bytes [img_two, [0x55, 0x22]] (Bytearray 0) = img_two"
proof -
  have "py_slice img_two 146 148 = [0x11, 0x22]"
    by code_simp
  then have "data_obj [img_two] (Bytearray 0) sect_a = ([img_two, [0x11, 0x22]], Bytearray 1)"
    by (simp add: data_obj_def sect_a_def)
  then show ?thesis
    using img_two_load img_two_sectab_eq by (simp add: tab_iter_def tab_two_def)
qed

section \<open>Construction and the section entries\<close>

lemma hdr_prefix: "take 50 d = take 50 d' \<Longrightarrow> hdr d = hdr d'"
  by (simp add: hdr_def py_slice_0 sizes)

text \<open>
  Claim C8, as stated, fails: the first 50 bytes do not decide whether construction
  succeeds. \<open>img_minimal\<close> is constructed; its first 50 bytes alone are rejected, for
  their string table is empty.
\<close>

theorem construction_prefix_counterexample:
  "take 50 (take 50 img_minimal) = take 50 img_minimal \<and>
   (\<exists>img. CoffImage_load img_minimal = Inr img) \<and>
   CoffImage_load (take 50 img_minimal) = Inl BadStringTable"
proof -
  have "hdr (take 50 img_minimal) = hdr img_minimal"
    by (rule hdr_prefix) simp
  then show ?thesis
    by (simp add: CoffImage_load_unfold hdr_img_minimal length_img_minimal)
qed

lemma img_malformed_hdr:
  "hdr img_noname = hdr img_two" "hdr img_baddata = hdr img_two"
  "hdr img_dup = hdr img_two" "hdr img_badutf = hdr img_two"
  by (rule hdr_prefix, simp add: img_noname_def img_baddata_def img_dup_def img_badutf_def)+

lemma img_malformed_load:
  "CoffImage_load img_noname = Inr (img_two_obj\<lparr>i_data := img_noname\<rparr>)"
  "CoffImage_load img_baddata = Inr (img_two_obj\<lparr>i_data := img_baddata\<rparr>)"
  "CoffImage_load img_dup = Inr (img_two_obj\<lparr>i_data := img_dup\<rparr>)"
  "CoffImage_load img_badutf = Inr (img_two_obj\<lparr>i_data := img_badutf\<rparr>)"
  by (simp_all add: CoffImage_load_unfold img_malformed_hdr hdr_img_two img_two_obj_def)
    (simp_all add: img_noname_def img_baddata_def img_dup_def img_badutf_def length_img_two)

lemma img_malformed_sectab:
  "sectab (img_two_obj\<lparr>i_data := img_noname\<rparr>) = Inl (SectionNoName 1)"
  "sectab (img_two_obj\<lparr>i_data := img_baddata\<rparr>) = Inl (SectionBadData 0)"
  "sectab (img_two_obj\<lparr>i_data := img_dup\<rparr>) = Inl (DuplicateSection [0x2E, 0x61])"
  "sectab (img_two_obj\<lparr>i_data := img_badutf\<rparr>) = Inl UnicodeDecodeError"
proof -
  have e: "map_sum id (\<lambda>_. ()) r = Inl x \<Longrightarrow> r = Inl x" for r :: "error + 'z" and x
    by (cases r) simp_all
  have "map_sum id (\<lambda>_. ()) (sectab (img_two_obj\<lparr>i_data := img_noname\<rparr>)) = Inl (SectionNoName 1)"
    by code_simp
  then show "sectab (img_two_obj\<lparr>i_data := img_noname\<rparr>) = Inl (SectionNoName 1)"
    by (rule e)
  have "map_sum id (\<lambda>_. ()) (sectab (img_two_obj\<lparr>i_data := img_baddata\<rparr>)) = Inl (SectionBadData 0)"
    by code_simp
  then show "sectab (img_two_obj\<lparr>i_data := img_baddata\<rparr>) = Inl (SectionBadData 0)"
    by (rule e)
  have "map_sum id (\<lambda>_. ()) (sectab (img_two_obj\<lparr>i_data := img_dup\<rparr>))
      = Inl (DuplicateSection [0x2E, 0x61])"
    by code_simp
  then show "sectab (img_two_obj\<lparr>i_data := img_dup\<rparr>) = Inl (DuplicateSection [0x2E, 0x61])"
    by (rule e)
  have "map_sum id (\<lambda>_. ()) (sectab (img_two_obj\<lparr>i_data := img_badutf\<rparr>)) = Inl UnicodeDecodeError"
    by code_simp
  then show "sectab (img_two_obj\<lparr>i_data := img_badutf\<rparr>) = Inl UnicodeDecodeError"
    by (rule e)
qed

text \<open>
  Claim C8, amended. Construction depends only on the first 50 bytes of the buffer and
  on its length: two buffers that agree on both fail with the same error or give the
  same image (up to the buffer it stores), and the only errors of construction are the
  six of the header. Images with malformed section entries (a name that is absent or
  not UTF-8, a data extent out of bounds, a duplicate name) are constructed, and the
  error comes from \<^verbatim>\<open>sectab\<close>. An access to \<^verbatim>\<open>sectab\<close> raises only while no table is
  cached, and after one that succeeded every access returns the cached table.
\<close>

theorem construction_header_only:
  "(length d = length d' \<and> take 50 d = take 50 d' \<longrightarrow>
      (\<forall>e. CoffImage_load d = Inl e \<longleftrightarrow> CoffImage_load d' = Inl e) \<and>
      (\<forall>img. CoffImage_load d = Inr img \<longrightarrow> CoffImage_load d' = Inr (img\<lparr>i_data := d'\<rparr>))) \<and>
   (\<forall>e. CoffImage_load d = Inl e \<longrightarrow>
      e = NotCoffImage \<or> e = BadMagic 0x0108 (hdr d ! 8) \<or> e = BadTarget \<or>
      e = BadSectionTable \<or> e = BadSymbolTable \<or> e = BadStringTable) \<and>
   (\<exists>img. CoffImage_load img_noname = Inr img \<and> sectab img = Inl (SectionNoName 1)) \<and>
   (\<exists>img. CoffImage_load img_badutf = Inr img \<and> sectab img = Inl UnicodeDecodeError) \<and>
   (\<exists>img. CoffImage_load img_baddata = Inr img \<and> sectab img = Inl (SectionBadData 0)) \<and>
   (\<exists>img. CoffImage_load img_dup = Inr img \<and> sectab img = Inl (DuplicateSection [0x2E, 0x61])) \<and>
   (\<forall>e. sectab img = Inl e \<longrightarrow> i_sectab img = None \<and> load_sect_tab img = Inl e) \<and>
   (\<forall>t img'. sectab img = Inr (t, img') \<longrightarrow> sectab img' = Inr (t, img'))"
proof (intro conjI impI allI)
  fix e
  assume a: "length d = length d' \<and> take 50 d = take 50 d'"
  then have h: "hdr d = hdr d'" by (intro hdr_prefix) simp
  from a show "CoffImage_load d = Inl e \<longleftrightarrow> CoffImage_load d' = Inl e"
    by (simp add: CoffImage_load_unfold h)
next
  fix img
  assume a: "length d = length d' \<and> take 50 d = take 50 d'" and l: "CoffImage_load d = Inr img"
  from a have h: "hdr d = hdr d'" by (intro hdr_prefix) simp
  note f = CoffImage_load_Inr [OF l]
  from a have len: "length d' = length d" by simp
  have "CoffImage_load d' =
      Inr \<lparr>i_tid = hdr d ! 7, i_entry = hdr d ! 13, i_nsects = hdr d ! 1,
           i_strtab_addr = hdr d ! 3 + hdr d ! 4 * 18,
           i_blen = (if hdr d ! 7 = 0x9D \<or> hdr d ! 7 = 0x98 then 2 else 1),
           i_data = d', i_sectab = None\<rparr>"
    using f(1-6) by (simp add: CoffImage_load_unfold [of d'] h [symmetric] len)
  then show "CoffImage_load d' = Inr (img\<lparr>i_data := d'\<rparr>)"
    by (subst f(7)) simp
next
  fix e
  assume "CoffImage_load d = Inl e"
  then show "e = NotCoffImage \<or> e = BadMagic 0x0108 (hdr d ! 8) \<or> e = BadTarget \<or>
      e = BadSectionTable \<or> e = BadSymbolTable \<or> e = BadStringTable"
    unfolding CoffImage_load_unfold by (simp split: if_splits)
next
  show "\<exists>img. CoffImage_load img_noname = Inr img \<and> sectab img = Inl (SectionNoName 1)"
    using img_malformed_load(1) img_malformed_sectab(1) by blast
  show "\<exists>img. CoffImage_load img_badutf = Inr img \<and> sectab img = Inl UnicodeDecodeError"
    using img_malformed_load(4) img_malformed_sectab(4) by blast
  show "\<exists>img. CoffImage_load img_baddata = Inr img \<and> sectab img = Inl (SectionBadData 0)"
    using img_malformed_load(2) img_malformed_sectab(2) by blast
  show "\<exists>img. CoffImage_load img_dup = Inr img \<and> sectab img = Inl (DuplicateSection [0x2E, 0x61])"
    using img_malformed_load(3) img_malformed_sectab(3) by blast
next
  fix e
  assume "sectab img = Inl e"
  then show "i_sectab img = None" and "load_sect_tab img = Inl e"
    by (auto simp add: sectab_def split: option.splits sum.splits)
next
  fix t img'
  assume "sectab img = Inr (t, img')"
  then have "i_sectab img' = Some t"
    by (auto simp add: sectab_def split: option.splits sum.splits)
  then show "sectab img' = Inr (t, img')"
    by (simp add: sectab_def)
qed

theorem construction_header_only_witness:
  "length (img_two[66 := 0xFF]) = length img_two \<and>
   take 50 (img_two[66 := 0xFF]) = take 50 img_two \<and>
   CoffImage_load img_two = Inr img_two_obj \<and>
   CoffImage_load (img_two[66 := 0xFF]) = Inr (img_two_obj\<lparr>i_data := img_two[66 := 0xFF]\<rparr>) \<and>
   CoffImage_load (take 49 img_two) = Inl NotCoffImage \<and>
   sectab (img_two_obj\<lparr>i_data := img_baddata\<rparr>) = Inl (SectionBadData 0) \<and>
   i_sectab (img_two_obj\<lparr>i_data := img_baddata\<rparr>) = None \<and>
   load_sect_tab (img_two_obj\<lparr>i_data := img_baddata\<rparr>) = Inl (SectionBadData 0) \<and>
   sectab (img_two_obj\<lparr>i_sectab := Some tab_two\<rparr>)
     = Inr (tab_two, img_two_obj\<lparr>i_sectab := Some tab_two\<rparr>)"
proof -
  have p: "length img_two = length (img_two[66 := 0xFF]) \<and>
      take 50 img_two = take 50 (img_two[66 := 0xFF])"
    by simp
  note t1 = construction_header_only [where d = img_two and d' = "img_two[66 := 0xFF]"
      and img = "img_two_obj\<lparr>i_data := img_baddata\<rparr>"]
  note t2 = construction_header_only [where d = "take 49 img_two" and d' = "take 49 img_two"
      and img = img_two_obj]
  from t1 [THEN conjunct1] p
  have "(\<forall>e. CoffImage_load img_two = Inl e \<longleftrightarrow> CoffImage_load (img_two[66 := 0xFF]) = Inl e) \<and>
      (\<forall>img. CoffImage_load img_two = Inr img \<longrightarrow>
         CoffImage_load (img_two[66 := 0xFF]) = Inr (img\<lparr>i_data := img_two[66 := 0xFF]\<rparr>))"
    by (rule mp)
  then have "CoffImage_load img_two = Inr img_two_obj \<longrightarrow>
      CoffImage_load (img_two[66 := 0xFF]) = Inr (img_two_obj\<lparr>i_data := img_two[66 := 0xFF]\<rparr>)"
    by (elim conjE allE)
  then have 1: "CoffImage_load (img_two[66 := 0xFF]) = Inr (img_two_obj\<lparr>i_data := img_two[66 := 0xFF]\<rparr>)"
    using img_two_load by (rule mp)
  have s: "CoffImage_load (take 49 img_two) = Inl NotCoffImage"
    by (simp add: CoffImage_load_unfold length_img_two)
  note a2 = t1 [THEN conjunct2, THEN conjunct2, THEN conjunct2, THEN conjunct2, THEN conjunct2,
      THEN conjunct2, THEN conjunct1, rule_format]
  have 2: "i_sectab (img_two_obj\<lparr>i_data := img_baddata\<rparr>) = None \<and>
      load_sect_tab (img_two_obj\<lparr>i_data := img_baddata\<rparr>) = Inl (SectionBadData 0)"
    using img_malformed_sectab(2) by (rule a2)
  note a3 = t2 [THEN conjunct2, THEN conjunct2, THEN conjunct2, THEN conjunct2, THEN conjunct2,
      THEN conjunct2, THEN conjunct2, rule_format]
  have 3: "sectab (img_two_obj\<lparr>i_sectab := Some tab_two\<rparr>)
     = Inr (tab_two, img_two_obj\<lparr>i_sectab := Some tab_two\<rparr>)"
    using img_two_sectab_eq by (rule a3)
  from p have p1: "length (img_two[66 := 0xFF]) = length img_two"
    and p2: "take 50 (img_two[66 := 0xFF]) = take 50 img_two"
    by simp_all
  from 2 have 21: "i_sectab (img_two_obj\<lparr>i_data := img_baddata\<rparr>) = None"
    and 22: "load_sect_tab (img_two_obj\<lparr>i_data := img_baddata\<rparr>) = Inl (SectionBadData 0)"
    by blast+
  show ?thesis
    by (intro conjI p1 p2 img_two_load 1 s img_malformed_sectab(2) 21 22 3)
qed

end
